theory Spec2Isabelle
  imports Complex_Main
begin

section \<open>Double-precision arithmetic\<close>

text \<open>
  The fill simulator adds, subtracts and divides JavaScript Numbers and compares the results
  with \<^verbatim>\<open>1e-9\<close> and \<^verbatim>\<open>1e-6\<close>, so its arithmetic is modelled as it is: IEEE 754 binary64 with
  round to nearest, ties to even, overflow to an infinity, and \<^verbatim>\<open>NaN\<close>. A finite double is
  held by its value, a real; the sign of a zero is not modelled (no operation of the
  simulator tells the two zeros apart: it divides by a level price, which is positive, and
  by a share count that the guard before has found not to be \<open>\<le> 0\<close>).
\<close>

datatype double = Fin real | PosInf | NegInf | NaN

definition pow2 :: "int \<Rightarrow> real" where
  "pow2 k = 2 powr (real_of_int k)"

text \<open>
  The exponent of the binade of \<open>x\<close>, not below that of the subnormal numbers, and the
  distance of two neighbouring doubles there (53 significant bits).
\<close>

definition expo :: "real \<Rightarrow> int" where
  "expo x = max \<lfloor>log 2 \<bar>x\<bar>\<rfloor> (- 1022)"

definition ulp :: "real \<Rightarrow> real" where
  "ulp x = pow2 (expo x - 52)"

text \<open>The nearest integer, the even one of the two at a tie.\<close>

definition roundEven :: "real \<Rightarrow> int" where
  "roundEven m =
     (let f = \<lfloor>m\<rfloor>
      in if m - real_of_int f < 1 / 2 then f
         else if m - real_of_int f > 1 / 2 then f + 1
         else if even f then f else f + 1)"

text \<open>
  The multiple of \<open>ulp x\<close> nearest to \<open>x\<close>, and the double that a real result is rounded to:
  an infinity when that multiple reaches \<open>2\<^sup>1\<^sup>0\<^sup>2\<^sup>4\<close>.
\<close>

definition rval :: "real \<Rightarrow> real" where
  "rval x = real_of_int (roundEven (x / ulp x)) * ulp x"

definition rnd :: "real \<Rightarrow> double" where
  "rnd x =
     (if rval x \<ge> pow2 1024 then PosInf
      else if rval x \<le> - pow2 1024 then NegInf
      else Fin (rval x))"

text \<open>A real is (the value of) a double when rounding leaves it as it is.\<close>

definition isDouble :: "real \<Rightarrow> bool" where
  "isDouble x = (rnd x = Fin x)"

text \<open>\<^verbatim>\<open>a <= b\<close> and \<^verbatim>\<open>a < b\<close>: false as soon as an operand is \<^verbatim>\<open>NaN\<close>.\<close>

fun dle :: "double \<Rightarrow> double \<Rightarrow> bool" where
  "dle (Fin x) (Fin y) = (x \<le> y)"
| "dle (Fin x) PosInf = True"
| "dle (Fin x) NegInf = False"
| "dle PosInf (Fin y) = False"
| "dle PosInf PosInf = True"
| "dle PosInf NegInf = False"
| "dle NegInf (Fin y) = True"
| "dle NegInf PosInf = True"
| "dle NegInf NegInf = True"
| "dle NaN b = False"
| "dle a NaN = False"

fun dless :: "double \<Rightarrow> double \<Rightarrow> bool" where
  "dless (Fin x) (Fin y) = (x < y)"
| "dless (Fin x) PosInf = True"
| "dless (Fin x) NegInf = False"
| "dless PosInf b = False"
| "dless NegInf (Fin y) = True"
| "dless NegInf PosInf = True"
| "dless NegInf NegInf = False"
| "dless NaN b = False"
| "dless a NaN = False"

text \<open>\<^verbatim>\<open>Math.min(a, b)\<close>: \<^verbatim>\<open>NaN\<close> as soon as an argument is.\<close>

fun dmin :: "double \<Rightarrow> double \<Rightarrow> double" where
  "dmin NaN b = NaN"
| "dmin a NaN = NaN"
| "dmin a b = (if dle a b then a else b)"

fun dneg :: "double \<Rightarrow> double" where
  "dneg (Fin x) = Fin (- x)"
| "dneg PosInf = NegInf"
| "dneg NegInf = PosInf"
| "dneg NaN = NaN"

text \<open>\<^verbatim>\<open>a + b\<close>: the two infinities of opposite sign add up to \<^verbatim>\<open>NaN\<close>.\<close>

fun dadd :: "double \<Rightarrow> double \<Rightarrow> double" where
  "dadd (Fin x) (Fin y) = rnd (x + y)"
| "dadd (Fin x) PosInf = PosInf"
| "dadd (Fin x) NegInf = NegInf"
| "dadd PosInf (Fin y) = PosInf"
| "dadd PosInf PosInf = PosInf"
| "dadd PosInf NegInf = NaN"
| "dadd NegInf (Fin y) = NegInf"
| "dadd NegInf PosInf = NaN"
| "dadd NegInf NegInf = NegInf"
| "dadd NaN b = NaN"
| "dadd a NaN = NaN"

text \<open>\<^verbatim>\<open>a - b\<close>.\<close>

definition dsub :: "double \<Rightarrow> double \<Rightarrow> double" where
  "dsub a b = dadd a (dneg b)"

text \<open>\<^verbatim>\<open>a / b\<close>; a zero divisor is taken as \<open>+0\<close>.\<close>

fun ddiv :: "double \<Rightarrow> double \<Rightarrow> double" where
  "ddiv (Fin x) (Fin y) =
     (if y = 0 then (if x = 0 then NaN else if x > 0 then PosInf else NegInf)
      else rnd (x / y))"
| "ddiv (Fin x) PosInf = Fin 0"
| "ddiv (Fin x) NegInf = Fin 0"
| "ddiv PosInf (Fin y) = (if y \<ge> 0 then PosInf else NegInf)"
| "ddiv NegInf (Fin y) = (if y \<ge> 0 then NegInf else PosInf)"
| "ddiv PosInf PosInf = NaN"
| "ddiv PosInf NegInf = NaN"
| "ddiv NegInf PosInf = NaN"
| "ddiv NegInf NegInf = NaN"
| "ddiv NaN b = NaN"
| "ddiv a NaN = NaN"

section \<open>Numbers, order books and the fill simulator (utils.js)\<close>

text \<open>
  Outside the fill simulator a JavaScript Number that the program computes with is modelled
  as an exact \<open>real\<close>: the configuration values, the clock and the numbers read from the
  catalog are finite, and the arithmetic of the report and of the engine on them is exact.
  A field of an order-book level goes through \<^verbatim>\<open>Number(...)\<close> first and may be \<^verbatim>\<open>NaN\<close> or
  an infinity; the result of that coercion is either \<open>Finite\<close> with the value of a finite
  double or \<open>NonFinite\<close>.
\<close>

datatype number = Finite real | NonFinite

text \<open>A level as the remote order book sends it, after \<^verbatim>\<open>Number(l.price)\<close>, \<^verbatim>\<open>Number(l.size)\<close>.\<close>

record raw_level =
  raw_price :: number
  raw_size :: number

text \<open>\<^verbatim>\<open>book?.bids ?? []\<close>: an absent book or an absent side is the empty list.\<close>

record book =
  bids :: "raw_level list"
  asks :: "raw_level list"

record level =
  price :: real
  size_l :: real

text \<open>The side is \<^verbatim>\<open>'buy'\<close> or not: \<open>Sell\<close> stands for every other value.\<close>

datatype side = Buy | Sell

text \<open>
  \<^verbatim>\<open>.map(l => ({price: Number(l.price), size: Number(l.size)}))
   .filter(l => Number.isFinite(l.price) && Number.isFinite(l.size) && l.price > 0 && l.size > 0)\<close>
\<close>

fun keepLevel :: "raw_level \<Rightarrow> level option" where
  "keepLevel l =
     (case (raw_price l, raw_size l) of
        (Finite p, Finite s) \<Rightarrow>
          (if p > 0 \<and> s > 0 then Some \<lparr>price = p, size_l = s\<rparr> else None)
      | _ \<Rightarrow> None)"

text \<open>
  \<^verbatim>\<open>.sort((a, b) => side === 'buy' ? a.price - b.price : b.price - a.price)\<close>:
  the sort of the language is stable, as \<open>sort_key\<close> is.
\<close>

definition sortedLevels :: "book \<Rightarrow> side \<Rightarrow> level list" where
  "sortedLevels b sd =
     (let raw = (if sd = Buy then asks b else bids b);
          kept = List.map_filter keepLevel raw
      in if sd = Buy then sort_key price kept else sort_key (\<lambda>l. - price l) kept)"

text \<open>
  The loop of \<^verbatim>\<open>marketFill\<close> over the sorted levels, on the three accumulators
  \<^verbatim>\<open>remainingUsd\<close>, \<^verbatim>\<open>shares\<close> (here \<open>nShares\<close>) and \<^verbatim>\<open>cost\<close>; the \<^verbatim>\<open>break\<close> is the
  branch that does not recurse. The price and the size of a level are finite doubles, so
  their product is rounded once; the literal \<^verbatim>\<open>1e-9\<close> is the double nearest to \<open>10\<^sup>-\<^sup>9\<close>, here
  \<open>eps9\<close>.
\<close>

definition eps9 :: double where
  "eps9 = rnd (1 / 10 ^ 9)"

fun fillLoop :: "level list \<Rightarrow> double \<Rightarrow> double \<Rightarrow> double \<Rightarrow> double \<times> double \<times> double" where
  "fillLoop [] remainingUsd nShares cost = (remainingUsd, nShares, cost)"
| "fillLoop (lvl # rest) remainingUsd nShares cost =
     (let lvlUsd = rnd (price lvl * size_l lvl);
          takeUsd = dmin remainingUsd lvlUsd;
          takeShares = ddiv takeUsd (Fin (price lvl));
          nShares' = dadd nShares takeShares;
          cost' = dadd cost takeUsd;
          remainingUsd' = dsub remainingUsd takeUsd
      in if dle remainingUsd' eps9 then (remainingUsd', nShares', cost')
         else fillLoop rest remainingUsd' nShares' cost')"

record fill =
  avgPrice :: double
  shares :: double
  notional :: double

text \<open>
  \<^verbatim>\<open>if (cost <= 0 || shares <= 0 || remainingUsd > 1e-6) return null;\<close> and \<^verbatim>\<open>null\<close>
  (insufficient depth) is \<open>None\<close>; \<open>eps6\<close> is the literal \<^verbatim>\<open>1e-6\<close>. The requested notional is
  any double.
\<close>

definition eps6 :: double where
  "eps6 = rnd (1 / 10 ^ 6)"

definition marketFill :: "book \<Rightarrow> side \<Rightarrow> double \<Rightarrow> fill option" where
  "marketFill b sd notionalUsd =
     (case fillLoop (sortedLevels b sd) notionalUsd (Fin 0) (Fin 0) of
        (remainingUsd, nShares, cost) \<Rightarrow>
          if dle cost (Fin 0) \<or> dle nShares (Fin 0) \<or> dless eps6 remainingUsd
          then None
          else Some \<lparr>avgPrice = ddiv cost nShares, shares = nShares, notional = cost\<rparr>)"

text \<open>
  The levels the loop body ran on: the prefix of the sorted levels up to and including the
  level at which the loop breaks (all of them when it never breaks).
\<close>

fun consumedLevels :: "level list \<Rightarrow> double \<Rightarrow> level list" where
  "consumedLevels [] remainingUsd = []"
| "consumedLevels (lvl # rest) remainingUsd =
     (let remainingUsd' = dsub remainingUsd (dmin remainingUsd (rnd (price lvl * size_l lvl)))
      in if dle remainingUsd' eps9 then [lvl]
         else lvl # consumedLevels rest remainingUsd')"

text \<open>
  The range in which no operation of the walk underflows or overflows: the notional, the
  prices and the value of every level are at least \<open>2\<^sup>-\<^sup>1\<^sup>0\<^sup>0\<close>, the notional and the prices
  at most \<open>2\<^sup>1\<^sup>0\<^sup>0\<close>. And the factor by which \<open>k\<close> levels of rounded sums and one rounded
  quotient can move an average price.
\<close>

definition normalRange :: "level list \<Rightarrow> real \<Rightarrow> bool" where
  "normalRange ls n =
     (1 / 2 ^ 100 \<le> n \<and> n \<le> 2 ^ 100 \<and>
      list_all (\<lambda>l. 1 / 2 ^ 100 \<le> price l \<and> price l \<le> 2 ^ 100 \<and>
                     1 / 2 ^ 100 \<le> price l * size_l l) ls)"

definition roundingFactor :: "nat \<Rightarrow> real" where
  "roundingFactor k = ((1 + 1 / 2 ^ 53) / (1 - 1 / 2 ^ 53)) ^ (k + 1)"

text \<open>The resting depth of a list of levels in currency units, as a real number.\<close>

definition depthUsd :: "level list \<Rightarrow> real" where
  "depthUsd ls = (\<Sum>l\<leftarrow>ls. price l * size_l l)"

text \<open>
  The report and the engine compute on with the numbers of a fill in exact arithmetic: a
  finite double enters by its value. The model of the report and of the engine is one of
  finite numbers: a field that is not finite (a share count or a cost that has overflowed)
  has no value there and is read as 0.
\<close>

fun valueOf :: "double \<Rightarrow> real" where
  "valueOf (Fin x) = x"
| "valueOf PosInf = 0"
| "valueOf NegInf = 0"
| "valueOf NaN = 0"

text \<open>Every finite price of the book is a probability: it lies in \<open>[0, 1]\<close>.\<close>

definition pricesInUnit :: "book \<Rightarrow> bool" where
  "pricesInUnit b =
     list_all (\<lambda>r. case raw_price r of Finite p \<Rightarrow> 0 \<le> p \<and> p \<le> 1 | NonFinite \<Rightarrow> True)
       (bids b @ asks b)"

subsection \<open>Best bid and best ask\<close>

text \<open>
  \<^verbatim>\<open>bestBidAsk\<close> is the same function in utils.js and in scan.js. Each loop skips a level
  whose price is not finite (\<^verbatim>\<open>if (!Number.isFinite(p)) continue;\<close>) and keeps the
  largest bid, the smallest ask; \<^verbatim>\<open>null\<close> is \<open>None\<close>.
\<close>

fun bestBidLoop :: "raw_level list \<Rightarrow> real option \<Rightarrow> real option" where
  "bestBidLoop [] bestBid = bestBid"
| "bestBidLoop (b # rest) bestBid =
     (case raw_price b of
        NonFinite \<Rightarrow> bestBidLoop rest bestBid
      | Finite p \<Rightarrow>
          (case bestBid of
             None \<Rightarrow> bestBidLoop rest (Some p)
           | Some q \<Rightarrow> if p > q then bestBidLoop rest (Some p) else bestBidLoop rest (Some q)))"

fun bestAskLoop :: "raw_level list \<Rightarrow> real option \<Rightarrow> real option" where
  "bestAskLoop [] bestAsk = bestAsk"
| "bestAskLoop (a # rest) bestAsk =
     (case raw_price a of
        NonFinite \<Rightarrow> bestAskLoop rest bestAsk
      | Finite p \<Rightarrow>
          (case bestAsk of
             None \<Rightarrow> bestAskLoop rest (Some p)
           | Some q \<Rightarrow> if p < q then bestAskLoop rest (Some p) else bestAskLoop rest (Some q)))"

record best_prices =
  bestBid :: "real option"
  bestAsk :: "real option"

definition bestBidAsk :: "book \<Rightarrow> best_prices" where
  "bestBidAsk b = \<lparr>bestBid = bestBidLoop (bids b) None, bestAsk = bestAskLoop (asks b) None\<rparr>"

text \<open>The finite prices of a list of raw levels, in their order.\<close>

definition finitePrices :: "raw_level list \<Rightarrow> real list" where
  "finitePrices ls =
     List.map_filter (\<lambda>l. case raw_price l of Finite p \<Rightarrow> Some p | NonFinite \<Rightarrow> None) ls"

section \<open>Markets, snapshots and the remote services\<close>

text \<open>\<^verbatim>\<open>x ?? 0\<close> on a value that may be \<^verbatim>\<open>null\<close> or absent.\<close>

fun orZero :: "real option \<Rightarrow> real" where
  "orZero None = 0"
| "orZero (Some x) = x"

text \<open>
  A market record of the catalog, with the fields the program reads. The list fields are
  the results of \<^verbatim>\<open>safeParseJsonArray\<close> (the empty list when the text does not parse);
  \<open>m_endDate\<close> is \<^verbatim>\<open>Date.parse(m.endDate)\<close>, \<open>None\<close> when that is \<^verbatim>\<open>NaN\<close>;
  \<open>m_closed\<close> is false exactly when \<^verbatim>\<open>m.closed === false\<close>; \<open>m_acceptingOrders\<close> is
  \<open>None\<close> when the field is absent. Numeric fields that are present are finite.
  Here and below a field carries a prefix of its record (\<open>m_\<close>, \<open>snap_\<close>, \<open>cfg_\<close>, ...)
  where the program uses the same field name in several kinds of object.
\<close>

record market =
  m_id :: string
  m_question :: string
  m_slug :: string
  m_closed :: bool
  m_enableOrderBook :: bool
  m_acceptingOrders :: "bool option"
  m_volume24hr :: "real option"
  m_liquidityNum :: "real option"
  m_liquidity :: "real option"
  m_outcomes :: "string list"
  m_outcomePrices :: "number list"
  m_clobTokenIds :: "string list"
  m_endDate :: "real option"

text \<open>\<^verbatim>\<open>Number(m.volume24hr ?? 0)\<close> and \<^verbatim>\<open>Number(m.liquidityNum ?? m.liquidity ?? 0)\<close>.\<close>

definition volumeOf :: "market \<Rightarrow> real" where
  "volumeOf m = orZero (m_volume24hr m)"

definition liquidityOf :: "market \<Rightarrow> real" where
  "liquidityOf m = (case m_liquidityNum m of Some x \<Rightarrow> x | None \<Rightarrow> orZero (m_liquidity m))"

text \<open>The last observation of a token: \<^verbatim>\<open>{ mid, bid, ask, t }\<close>.\<close>

record snapshot =
  snap_mid :: real
  snap_bid :: real
  snap_ask :: real
  snap_t :: real

text \<open>
  \<^verbatim>\<open>fetchJson\<close> throws when the request fails. The catalog request is not caught: its
  failure ends the run. An order-book request is caught by its caller: the book service is
  a function from token identifiers to \<open>book option\<close>, \<open>None\<close> for a failed request.
\<close>

datatype error = HttpError

type_synonym clob = "string \<Rightarrow> book option"

section \<open>The single-shot report (scan.js)\<close>

subsection \<open>The scoring model\<close>

definition clamp01 :: "real \<Rightarrow> real" where
  "clamp01 x = max 0 (min 1 x)"

text \<open>\<^verbatim>\<open>Math.round\<close> rounds to the nearest integer, a half upwards.\<close>

definition mathRound :: "real \<Rightarrow> int" where
  "mathRound x = \<lfloor>x + 1 / 2\<rfloor>"

text \<open>
  \<^verbatim>\<open>clamp01(Math.log10(1 + x) / 5)\<close>. The logarithm of a negative number is \<^verbatim>\<open>NaN\<close>, which
  \<^verbatim>\<open>Math.max\<close>, \<^verbatim>\<open>Math.min\<close>, the sum and \<^verbatim>\<open>Math.round\<close> hand on: \<open>None\<close>. The logarithm of
  0 is \<^verbatim>\<open>-Infinity\<close>, which is clamped to 0.
\<close>

definition logScore :: "real \<Rightarrow> real option" where
  "logScore x =
     (if 1 + x < 0 then None
      else if 1 + x = 0 then Some 0
      else Some (clamp01 (log 10 (1 + x) / 5)))"

text \<open>\<^verbatim>\<open>opportunityScore\<close>; \<open>None\<close> is the result \<^verbatim>\<open>NaN\<close>.\<close>

definition opportunityScore ::
  "real \<Rightarrow> real \<Rightarrow> real \<Rightarrow> real \<Rightarrow> real option \<Rightarrow> real option \<Rightarrow> int option" where
  "opportunityScore spread vol24h liq absMove1h slipBuy slipSell =
     (case (logScore vol24h, logScore liq) of
        (Some volScore, Some liqScore) \<Rightarrow>
          (let moveScore = clamp01 (absMove1h / (8 / 100));
               spreadPenalty = clamp01 (spread / (2 / 100));
               slipPenalty = clamp01 ((orZero slipBuy + orZero slipSell) / (4 / 100));
               raw = 45 * volScore + 25 * liqScore + 30 * moveScore
                     - 25 * spreadPenalty - 25 * slipPenalty
           in Some (mathRound (max 0 (min 100 raw))))
      | _ \<Rightarrow> None)"

subsection \<open>Slippage at a notional\<close>

record slippage =
  sl_avgPrice :: real
  sl_refPrice :: real
  sl_slippage :: real
  sl_shares :: real

text \<open>
  \<^verbatim>\<open>slippageForNotional\<close> filters, sorts and walks the levels as \<^verbatim>\<open>marketFill\<close> does, in
  the same double arithmetic, then compares with the best price; \<^verbatim>\<open>if (!ref) return null\<close>
  drops an absent or zero reference. The notional of the report is a finite number, handed
  over as the double nearest to it.
\<close>

definition slippageForNotional :: "book \<Rightarrow> side \<Rightarrow> real \<Rightarrow> slippage option" where
  "slippageForNotional b sd notionalUsd =
     (case fillLoop (sortedLevels b sd) (rnd notionalUsd) (Fin 0) (Fin 0) of
        (remainingUsd, nShares, cost) \<Rightarrow>
          if dle cost (Fin 0) \<or> dle nShares (Fin 0) \<or> dless eps6 remainingUsd then None
          else
            (let avg = valueOf (ddiv cost nShares);
                 ref = (if sd = Buy then bestAsk (bestBidAsk b) else bestBid (bestBidAsk b))
             in case ref of
                  None \<Rightarrow> None
                | Some r \<Rightarrow>
                    if r = 0 then None
                    else Some \<lparr>sl_avgPrice = avg, sl_refPrice = r, sl_slippage = \<bar>avg - r\<bar>,
                               sl_shares = valueOf nShares\<rparr>))"

subsection \<open>The scan\<close>

text \<open>The options of the report; \<^verbatim>\<open>maxAlerts\<close> and \<^verbatim>\<open>limit\<close> are counts.\<close>

record args =
  arg_maxAlerts :: nat
  arg_limit :: nat
  arg_minVolume24h :: real
  arg_minLiquidity :: real
  arg_notional :: real
  arg_maxEndHours :: real
  arg_maxSpread :: real

text \<open>The snapshot document \<^verbatim>\<open>{ t, byToken }\<close> of the report.\<close>

record snapshot_doc =
  doc_t :: real
  doc_byToken :: "string \<rightharpoonup> snapshot"

text \<open>The eligibility filter of the report, and \<^verbatim>\<open>.slice(0, 30)\<close>.\<close>

definition endsWithin :: "real \<Rightarrow> real \<Rightarrow> market \<Rightarrow> bool" where
  "endsWithin now endCutoffMs m =
     (case m_endDate m of None \<Rightarrow> False | Some e \<Rightarrow> e > now \<and> e < endCutoffMs)"

definition scanCandidates :: "args \<Rightarrow> real \<Rightarrow> market list \<Rightarrow> market list" where
  "scanCandidates a now markets =
     (let endCutoffMs = now + arg_maxEndHours a * 3600000
      in take 30
           (filter (endsWithin now endCutoffMs)
             (filter (\<lambda>m. liquidityOf m \<ge> arg_minLiquidity a)
               (filter (\<lambda>m. volumeOf m \<ge> arg_minVolume24h a)
                 (filter m_enableOrderBook
                   (filter (\<lambda>m. \<not> m_closed m) markets))))))"

record token_candidate =
  tc_idx :: nat
  tc_token :: string
  tc_refPrice :: real
  tc_book :: book
  tc_bestBid :: real
  tc_bestAsk :: real
  tc_mid :: real
  tc_spread :: real
  tc_err :: real

text \<open>
  The loop over the tokens of one market, on the list of \<^verbatim>\<open>(idx, tokenIds[idx], prices[idx])\<close>.
  It returns the candidates pushed and the tokens whose order book was requested, both in
  the order of the loop. \<^verbatim>\<open>if (!bestBid || !bestAsk) continue;\<close> skips an absent or zero price.
\<close>

fun tokenLoop :: "clob \<Rightarrow> (nat \<times> string \<times> number) list \<Rightarrow> token_candidate list \<times> string list" where
  "tokenLoop fetchBook [] = ([], [])"
| "tokenLoop fetchBook ((idx, token, rp) # rest) =
     (case rp of
        NonFinite \<Rightarrow> tokenLoop fetchBook rest
      | Finite refPrice \<Rightarrow>
          (case tokenLoop fetchBook rest of
             (cands, fetched) \<Rightarrow>
               (case fetchBook token of
                  None \<Rightarrow> (cands, token # fetched)
                | Some bk \<Rightarrow>
                    (case (bestBid (bestBidAsk bk), bestAsk (bestBidAsk bk)) of
                       (Some bb, Some ba) \<Rightarrow>
                         if bb = 0 \<or> ba = 0 then (cands, token # fetched)
                         else
                           (\<lparr>tc_idx = idx, tc_token = token, tc_refPrice = refPrice,
                              tc_book = bk, tc_bestBid = bb, tc_bestAsk = ba,
                              tc_mid = (bb + ba) / 2, tc_spread = ba - bb,
                              tc_err = \<bar>(bb + ba) / 2 - refPrice\<bar>\<rparr> # cands,
                            token # fetched)
                     | _ \<Rightarrow> (cands, token # fetched)))))"

record row =
  row_score :: "int option"
  row_question :: string
  row_url :: string
  row_marketId :: string
  row_endDate :: "real option"
  row_vol24h :: real
  row_liq :: real
  row_bestBid :: real
  row_bestAsk :: real
  row_mid :: real
  row_spread :: real
  row_absMove1h :: real
  row_slipBuy :: "real option"
  row_slipSell :: "real option"
  row_token :: string
  row_refPrice :: real

text \<open>
  The body of the loop over the candidate markets: the row pushed (if any), the snapshot
  map after it, and the tokens whose order book was requested.
\<close>

definition scanMarket ::
  "args \<Rightarrow> real \<Rightarrow> clob \<Rightarrow> (string \<rightharpoonup> snapshot) \<Rightarrow> market
   \<Rightarrow> row option \<times> (string \<rightharpoonup> snapshot) \<times> string list" where
  "scanMarket a now fetchBook byToken m =
     (let outcomes = m_outcomes m; prices = m_outcomePrices m; tokenIds = m_clobTokenIds m
      in if length outcomes < 2 \<or> length prices < 2 \<or> length tokenIds < 2
         then (None, byToken, [])
         else
           (case tokenLoop fetchBook
                   (zip [0 ..< min (length tokenIds) (length prices)] (zip tokenIds prices)) of
              (tokenCandidates, fetched) \<Rightarrow>
                (case sort_key tc_err tokenCandidates of
                   [] \<Rightarrow> (None, byToken, fetched)
                 | chosen # _ \<Rightarrow>
                     (let prevKey = tc_token chosen;
                          absMove1h =
                            (case byToken prevKey of
                               None \<Rightarrow> 0
                             | Some e \<Rightarrow>
                                 if snap_mid e = 0 then 0 else \<bar>tc_mid chosen - snap_mid e\<bar>);
                          slipBuy = map_option sl_slippage
                                      (slippageForNotional (tc_book chosen) Buy (arg_notional a));
                          slipSell = map_option sl_slippage
                                      (slippageForNotional (tc_book chosen) Sell (arg_notional a))
                      in if tc_spread chosen > arg_maxSpread a then (None, byToken, fetched)
                         else if slipBuy = None then (None, byToken, fetched)
                         else
                           (Some \<lparr>row_score =
                                    opportunityScore (tc_spread chosen) (volumeOf m)
                                      (orZero (m_liquidityNum m)) absMove1h slipBuy slipSell,
                                  row_question = m_question m,
                                  row_url = ''https://polymarket.com/market/'' @ m_slug m,
                                  row_marketId = m_id m,
                                  row_endDate = m_endDate m,
                                  row_vol24h = volumeOf m,
                                  row_liq = orZero (m_liquidityNum m),
                                  row_bestBid = tc_bestBid chosen,
                                  row_bestAsk = tc_bestAsk chosen,
                                  row_mid = tc_mid chosen,
                                  row_spread = tc_spread chosen,
                                  row_absMove1h = absMove1h,
                                  row_slipBuy = slipBuy,
                                  row_slipSell = slipSell,
                                  row_token = tc_token chosen,
                                  row_refPrice = tc_refPrice chosen\<rparr>,
                            byToken(prevKey \<mapsto>
                              \<lparr>snap_mid = tc_mid chosen, snap_bid = tc_bestBid chosen,
                               snap_ask = tc_bestAsk chosen, snap_t = now\<rparr>),
                            fetched)))))"

fun scanLoop ::
  "args \<Rightarrow> real \<Rightarrow> clob \<Rightarrow> market list \<Rightarrow> (string \<rightharpoonup> snapshot)
   \<Rightarrow> row list \<times> (string \<rightharpoonup> snapshot) \<times> string list" where
  "scanLoop a now fetchBook [] byToken = ([], byToken, [])"
| "scanLoop a now fetchBook (m # ms) byToken =
     (case scanMarket a now fetchBook byToken m of
        (r, byToken', fetched) \<Rightarrow>
          (case scanLoop a now fetchBook ms byToken' of
             (rows, byToken'', fetched') \<Rightarrow>
               ((case r of None \<Rightarrow> rows | Some x \<Rightarrow> x # rows), byToken'', fetched @ fetched')))"

record scan_report =
  rep_top :: "row list"
  rep_snapshots :: snapshot_doc
  rep_fetched :: "string list"

text \<open>
  \<^verbatim>\<open>main\<close> of the report, on the snapshot document read, the time \<^verbatim>\<open>Date.now()\<close>, the
  answer of the catalog (\<open>None\<close> when the request fails, which ends the run) and the book
  service. It yields the rows reported (sorted by descending score, a stable sort, and cut
  to \<^verbatim>\<open>maxAlerts\<close>), the snapshot document written, and the order-book requests issued.
  The language leaves the place of a row whose score is \<^verbatim>\<open>NaN\<close> open; here it sorts as 0.
\<close>

definition main ::
  "args \<Rightarrow> real \<Rightarrow> market list option \<Rightarrow> clob \<Rightarrow> snapshot_doc \<Rightarrow> error + scan_report" where
  "main a now catalog fetchBook prev =
     (case catalog of
        None \<Rightarrow> Inl HttpError
      | Some markets \<Rightarrow>
          (case scanLoop a now fetchBook (scanCandidates a now markets) (doc_byToken prev) of
             (rows, byToken, fetched) \<Rightarrow>
               Inr \<lparr>rep_top = take (arg_maxAlerts a)
                                (sort_key (\<lambda>r. - (case row_score r of Some n \<Rightarrow> n | None \<Rightarrow> 0))
                                   rows),
                    rep_snapshots = \<lparr>doc_t = now, doc_byToken = byToken\<rparr>,
                    rep_fetched = fetched\<rparr>))"

text \<open>What the report asks of a market before any of its order books is requested.\<close>

definition eligibleScan :: "args \<Rightarrow> real \<Rightarrow> market \<Rightarrow> bool" where
  "eligibleScan a now m =
     (\<not> m_closed m \<and> m_enableOrderBook m \<and>
      volumeOf m \<ge> arg_minVolume24h a \<and> liquidityOf m \<ge> arg_minLiquidity a \<and>
      endsWithin now (now + arg_maxEndHours a * 3600000) m \<and>
      2 \<le> length (m_outcomes m) \<and> 2 \<le> length (m_outcomePrices m) \<and>
      2 \<le> length (m_clobTokenIds m))"

section \<open>The live engine (engine.js)\<close>

record config =
  cfg_notional :: real
  cfg_scanLimit :: nat
  cfg_minVolume24h :: real
  cfg_minLiquidity :: real
  cfg_maxSpread :: real
  cfg_minMove :: real
  cfg_tp :: real
  cfg_sl :: real
  cfg_maxHoldMs :: real
  cfg_pollMs :: real

definition defaultConfig :: config where
  "defaultConfig =
     \<lparr>cfg_notional = 200, cfg_scanLimit = 200, cfg_minVolume24h = 50000,
      cfg_minLiquidity = 10000, cfg_maxSpread = 2 / 100, cfg_minMove = 2 / 100,
      cfg_tp = 2 / 100, cfg_sl = 2 / 100, cfg_maxHoldMs = 60 * 60000, cfg_pollMs = 30000\<rparr>"

subsection \<open>The position and the persisted run state\<close>

text \<open>
  The identifier \<^verbatim>\<open>`t${now}-${op.market.id}-${op.chosen.tokenId}`\<close> is kept as the triple
  it is printed from. The free-text \<^verbatim>\<open>reason\<close> of an entry is left out.
\<close>

type_synonym trade_id = "real \<times> string \<times> string"

record entry =
  entry_avgPrice :: real
  entry_shares :: real
  bookBid :: real
  bookAsk :: real
  entry_spread :: real

record exits =
  takeProfitPrice :: real
  stopLossPrice :: real
  maxHoldMs :: real

record mark =
  mark_t :: real
  mark_mid :: real
  mark_bid :: real
  mark_ask :: real

record position =
  pos_id :: trade_id
  openedAt :: real
  marketId :: string
  question :: string
  url :: string
  tokenId :: string
  pos_notional :: real
  entry :: entry
  exits :: exits
  status :: string
  lastMark :: mark

record snapshots =
  byToken :: "string \<rightharpoonup> snapshot"
  snapshots_t :: real

record run_state =
  createdAt :: string
  lastScanAt :: "real option"
  openPosition :: "position option"
  lastClosedId :: "trade_id option"
  snapshots :: snapshots

subsection \<open>Finding an opportunity\<close>

record token_info =
  ti_tokenId :: string
  ti_mid :: real
  ti_prevMid :: real
  ti_spread :: real
  ti_book :: book
  ti_move :: real

text \<open>
  \<^verbatim>\<open>[...tokens].sort((a, b) => Math.abs(b.mid - b.prevMid) - Math.abs(a.mid - a.prevMid))[0] ?? null\<close>
\<close>

definition pickTokenByMove :: "token_info list \<Rightarrow> token_info option" where
  "pickTokenByMove tokens =
     (case sort_key (\<lambda>t. - \<bar>ti_mid t - ti_prevMid t\<bar>) tokens of
        [] \<Rightarrow> None
      | x # _ \<Rightarrow> Some x)"

record snapshot_update =
  su_tokenId :: string
  su_mid :: real
  su_bid :: real
  su_ask :: real

record chosen =
  ch_tokenId :: string
  ch_mid :: real
  ch_prevMid :: real
  ch_move :: real
  ch_spread :: real
  ch_bid :: real
  ch_ask :: real
  ch_entry :: fill

record opportunity =
  op_score :: real
  op_market :: market
  op_chosen :: chosen
  op_url :: string

text \<open>The eligibility filter of the engine, and \<^verbatim>\<open>.slice(0, 40)\<close>.\<close>

definition liveCandidates :: "config \<Rightarrow> market list \<Rightarrow> market list" where
  "liveCandidates cfg markets =
     take 40
       (filter (\<lambda>m. length (m_outcomes m) = 2)
         (filter (\<lambda>m. liquidityOf m \<ge> cfg_minLiquidity cfg)
           (filter (\<lambda>m. volumeOf m \<ge> cfg_minVolume24h cfg)
             (filter (\<lambda>m. m_acceptingOrders m \<noteq> Some False)
               (filter m_enableOrderBook
                 (filter (\<lambda>m. \<not> m_closed m) markets))))))"

text \<open>
  The score of the engine, written in line in \<^verbatim>\<open>findOpportunity\<close>:
  \<^verbatim>\<open>(absMove / 0.05) * 50 + (1 - Math.min(1, best.spread / cfg.maxSpread)) * 20
   + Math.min(20, Math.log10(1 + Number(m.volume24hr ?? 0)) * 3)\<close>
  The real number below is that score for a maximum spread other than 0 and a 24h volume
  above -1. Outside, the code computes with \<^verbatim>\<open>NaN\<close> or an infinity, and the language
  leaves the order of the ranking open; the engine uses the score for the ranking only.
\<close>

definition liveScore :: "real \<Rightarrow> real \<Rightarrow> real \<Rightarrow> real \<Rightarrow> real" where
  "liveScore absMove spread maxSpread vol24h =
     (absMove / (5 / 100)) * 50 + (1 - min 1 (spread / maxSpread)) * 20
     + min 20 (log 10 (1 + vol24h) * 3)"

text \<open>
  The body of the loop over the candidate markets of the engine. It returns the order-book
  requests issued (both requests of \<^verbatim>\<open>Promise.all\<close> are issued before either is awaited),
  the snapshot updates pushed and the opportunity pushed, if any. The notional of the
  configuration reaches \<^verbatim>\<open>marketFill\<close> as the double nearest to it.
\<close>

definition evalMarket ::
  "run_state \<Rightarrow> config \<Rightarrow> clob \<Rightarrow> market
   \<Rightarrow> string list \<times> snapshot_update list \<times> opportunity option" where
  "evalMarket state cfg fetchBook m =
     (let tokenIds = m_clobTokenIds m
      in if length tokenIds < 2 then ([], [], None)
         else
           (let tokenA = tokenIds ! 0; tokenB = tokenIds ! 1
            in case (fetchBook tokenA, fetchBook tokenB) of
                 (Some bookA, Some bookB) \<Rightarrow>
                   (case (bestBid (bestBidAsk bookA), bestAsk (bestBidAsk bookA),
                          bestBid (bestBidAsk bookB), bestAsk (bestBidAsk bookB)) of
                      (Some bidA, Some askA, Some bidB, Some askB) \<Rightarrow>
                        (let midA = (bidA + askA) / 2;
                             midB = (bidB + askB) / 2;
                             updates =
                               [\<lparr>su_tokenId = tokenA, su_mid = midA, su_bid = bidA, su_ask = askA\<rparr>,
                                \<lparr>su_tokenId = tokenB, su_mid = midB, su_bid = bidB, su_ask = askB\<rparr>];
                             spreadA = askA - bidA;
                             spreadB = askB - bidB
                         in if spreadA > cfg_maxSpread cfg \<and> spreadB > cfg_maxSpread cfg
                            then ([tokenA, tokenB], updates, None)
                            else
                              (let prevA = (case byToken (snapshots state) tokenA of
                                              Some e \<Rightarrow> snap_mid e | None \<Rightarrow> midA);
                                   prevB = (case byToken (snapshots state) tokenB of
                                              Some e \<Rightarrow> snap_mid e | None \<Rightarrow> midB)
                               in case pickTokenByMove
                                         [\<lparr>ti_tokenId = tokenA, ti_mid = midA, ti_prevMid = prevA,
                                           ti_spread = spreadA, ti_book = bookA,
                                           ti_move = midA - prevA\<rparr>,
                                          \<lparr>ti_tokenId = tokenB, ti_mid = midB, ti_prevMid = prevB,
                                           ti_spread = spreadB, ti_book = bookB,
                                           ti_move = midB - prevB\<rparr>] of
                                    None \<Rightarrow> ([tokenA, tokenB], updates, None)
                                  | Some best \<Rightarrow>
                                      (let absMove = \<bar>ti_mid best - ti_prevMid best\<bar>
                                       in if absMove < cfg_minMove cfg
                                          then ([tokenA, tokenB], updates, None)
                                          else if ti_spread best > cfg_maxSpread cfg
                                          then ([tokenA, tokenB], updates, None)
                                          else
                                            (case marketFill (ti_book best) Buy (rnd (cfg_notional cfg)) of
                                               None \<Rightarrow> ([tokenA, tokenB], updates, None)
                                             | Some fl \<Rightarrow>
                                                 ([tokenA, tokenB], updates,
                                                  Some
                                                   \<lparr>op_score =
                                                      liveScore absMove (ti_spread best)
                                                        (cfg_maxSpread cfg) (volumeOf m),
                                                    op_market = m,
                                                    op_chosen =
                                                      \<lparr>ch_tokenId = ti_tokenId best,
                                                       ch_mid = ti_mid best,
                                                       ch_prevMid = ti_prevMid best,
                                                       ch_move = ti_mid best - ti_prevMid best,
                                                       ch_spread = ti_spread best,
                                                       ch_bid = (if ti_tokenId best = tokenA
                                                                 then bidA else bidB),
                                                       ch_ask = (if ti_tokenId best = tokenA
                                                                 then askA else askB),
                                                       ch_entry = fl\<rparr>,
                                                    op_url = ''https://polymarket.com/market/''
                                                             @ m_slug m\<rparr>)))))
                    | _ \<Rightarrow> ([tokenA, tokenB], [], None))
               | _ \<Rightarrow> ([tokenA, tokenB], [], None)))"

fun evalLoop ::
  "run_state \<Rightarrow> config \<Rightarrow> clob \<Rightarrow> market list
   \<Rightarrow> string list \<times> snapshot_update list \<times> opportunity list" where
  "evalLoop state cfg fetchBook [] = ([], [], [])"
| "evalLoop state cfg fetchBook (m # ms) =
     (case evalMarket state cfg fetchBook m of
        (fetched, updates, scored) \<Rightarrow>
          (case evalLoop state cfg fetchBook ms of
             (fetched', updates', scored') \<Rightarrow>
               (fetched @ fetched', updates @ updates',
                (case scored of None \<Rightarrow> scored' | Some s \<Rightarrow> s # scored'))))"

record scan_result =
  res_best :: "opportunity option"
  res_snapshotUpdates :: "snapshot_update list"
  res_fetched :: "string list"

text \<open>
  \<^verbatim>\<open>findOpportunity\<close>: \<^verbatim>\<open>scored.sort((a, b) => b.score - a.score)\<close> and its first element.
  A failed catalog request throws.
\<close>

definition findOpportunity ::
  "run_state \<Rightarrow> config \<Rightarrow> market list option \<Rightarrow> clob \<Rightarrow> error + scan_result" where
  "findOpportunity state cfg catalog fetchBook =
     (case catalog of
        None \<Rightarrow> Inl HttpError
      | Some markets \<Rightarrow>
          (case evalLoop state cfg fetchBook (liveCandidates cfg markets) of
             (fetched, snapshotUpdates, scored) \<Rightarrow>
               Inr \<lparr>res_best =
                      (case sort_key (\<lambda>s. - op_score s) scored of
                         [] \<Rightarrow> None
                       | top1 # _ \<Rightarrow> Some top1),
                    res_snapshotUpdates = snapshotUpdates,
                    res_fetched = fetched\<rparr>))"

subsection \<open>Opening and the exit rule\<close>

text \<open>\<^verbatim>\<open>buildPosition\<close>: the entry price and the shares are the values of the fields of the fill.\<close>

definition buildPosition :: "real \<Rightarrow> opportunity \<Rightarrow> config \<Rightarrow> position" where
  "buildPosition now op cfg =
     (let entryPrice = valueOf (avgPrice (ch_entry (op_chosen op)))
      in \<lparr>pos_id = (now, m_id (op_market op), ch_tokenId (op_chosen op)),
          openedAt = now,
          marketId = m_id (op_market op),
          question = m_question (op_market op),
          url = op_url op,
          tokenId = ch_tokenId (op_chosen op),
          pos_notional = cfg_notional cfg,
          entry = \<lparr>entry_avgPrice = entryPrice,
                    entry_shares = valueOf (shares (ch_entry (op_chosen op))),
                    bookBid = ch_bid (op_chosen op),
                    bookAsk = ch_ask (op_chosen op),
                    entry_spread = ch_spread (op_chosen op)\<rparr>,
          exits = \<lparr>takeProfitPrice = min (999 / 1000) (entryPrice + cfg_tp cfg),
                    stopLossPrice = max (1 / 1000) (entryPrice - cfg_sl cfg),
                    maxHoldMs = cfg_maxHoldMs cfg\<rparr>,
          status = ''OPEN'',
          lastMark = \<lparr>mark_t = now, mark_mid = ch_mid (op_chosen op),
                       mark_bid = ch_bid (op_chosen op), mark_ask = ch_ask (op_chosen op)\<rparr>\<rparr>)"

datatype exit_reason = TIME_STOP | TAKE_PROFIT | STOP_LOSS

record exit_decision =
  reason :: exit_reason
  exitAt :: real

text \<open>\<^verbatim>\<open>shouldExit\<close>, with the \<^verbatim>\<open>Date.now()\<close> it reads as its first argument.\<close>

definition shouldExit :: "real \<Rightarrow> position \<Rightarrow> mark \<Rightarrow> exit_decision option" where
  "shouldExit now p mk =
     (let ageMs = now - openedAt p
      in if ageMs \<ge> maxHoldMs (exits p) then Some \<lparr>reason = TIME_STOP, exitAt = now\<rparr>
         else
           (let px = mark_bid mk
            in if px \<ge> takeProfitPrice (exits p) then Some \<lparr>reason = TAKE_PROFIT, exitAt = now\<rparr>
               else if px \<le> stopLossPrice (exits p) then Some \<lparr>reason = STOP_LOSS, exitAt = now\<rparr>
               else None))"

text \<open>What the engine asks of a market before any of its order books is requested.\<close>

definition eligibleLive :: "config \<Rightarrow> market \<Rightarrow> bool" where
  "eligibleLive cfg m =
     (\<not> m_closed m \<and> m_enableOrderBook m \<and> m_acceptingOrders m \<noteq> Some False \<and>
      volumeOf m \<ge> cfg_minVolume24h cfg \<and> liquidityOf m \<ge> cfg_minLiquidity cfg \<and>
      length (m_outcomes m) = 2 \<and> 2 \<le> length (m_clobTokenIds m))"

section \<open>The live loop (live.js)\<close>

text \<open>The records appended to the trade log of a position.\<close>

datatype trade_event =
    OPEN real position
  | MARK real real real real
  | CLOSE real exit_reason real real

fun isOPEN :: "trade_event \<Rightarrow> bool" where
  "isOPEN (OPEN t p) = True"
| "isOPEN _ = False"

text \<open>The summary written once when a position closes (its rounded \<^verbatim>\<open>pnlCents\<close> is left out).\<close>

record closed_trade =
  ct_id :: trade_id
  ct_openedAt :: real
  ct_closedAt :: real
  ct_durationMs :: real
  ct_marketId :: string
  ct_question :: string
  ct_url :: string
  ct_tokenId :: string
  ct_notional :: real
  ct_entryAvg :: real
  ct_exitAvg :: real
  ct_shares :: real
  ct_pnl :: real
  ct_exitReason :: exit_reason
  ct_exits :: exits
  ct_lastMark :: mark

text \<open>
  What one turn of the loop of \<^verbatim>\<open>run\<close> meets outside the program: the clock, the answer of
  the catalog and the book service. Every \<^verbatim>\<open>Date.now()\<close> of a turn reads the same instant.
\<close>

record env =
  env_now :: real
  env_catalog :: "market list option"
  env_book :: clob

definition markAndSnapshot ::
  "real \<Rightarrow> run_state \<Rightarrow> string \<Rightarrow> real \<Rightarrow> real \<Rightarrow> real \<Rightarrow> run_state" where
  "markAndSnapshot now state tok mid bid ask =
     state\<lparr>snapshots :=
       \<lparr>byToken = (byToken (snapshots state))
                    (tok \<mapsto> \<lparr>snap_mid = mid, snap_bid = bid, snap_ask = ask, snap_t = now\<rparr>),
        snapshots_t = now\<rparr>\<rparr>"

text \<open>\<^verbatim>\<open>for (const u of res.snapshotUpdates ?? []) state.snapshots.byToken[u.tokenId] = ...\<close>\<close>

fun applyUpdates ::
  "real \<Rightarrow> snapshot_update list \<Rightarrow> (string \<rightharpoonup> snapshot) \<Rightarrow> (string \<rightharpoonup> snapshot)" where
  "applyUpdates now [] bt = bt"
| "applyUpdates now (u # us) bt =
     applyUpdates now us
       (bt(su_tokenId u \<mapsto>
          \<lparr>snap_mid = su_mid u, snap_bid = su_bid u, snap_ask = su_ask u, snap_t = now\<rparr>))"

text \<open>
  One turn of the loop: from the state read (\<^verbatim>\<open>readState\<close>) to the state on disk when the
  turn sleeps (the last \<^verbatim>\<open>writeState\<close>, or the state read when the turn writes nothing),
  with the trade-log records appended, the summary written and the order-book requests.
  Writing to disk does not fail; the one error of a turn is a failed catalog request.
  The notional of the exit fill reaches \<^verbatim>\<open>marketFill\<close> as the double nearest to it, and the
  average price of that fill enters the profit by its value.
\<close>

record cycle_out =
  out_state :: run_state
  out_log :: "(trade_id \<times> trade_event) list"
  out_closed :: "closed_trade option"
  out_fetched :: "string list"

definition scanCycle :: "config \<Rightarrow> env \<Rightarrow> run_state \<Rightarrow> error + cycle_out" where
  "scanCycle cfg e state =
     (case findOpportunity state cfg (env_catalog e) (env_book e) of
        Inl err \<Rightarrow> Inl err
      | Inr res \<Rightarrow>
          (let now = env_now e;
               state1 = state\<lparr>snapshots :=
                          \<lparr>byToken = applyUpdates now (res_snapshotUpdates res)
                                       (byToken (snapshots state)),
                           snapshots_t = now\<rparr>,
                        lastScanAt := Some now\<rparr>
           in case res_best res of
                None \<Rightarrow>
                  Inr \<lparr>out_state = state1, out_log = [], out_closed = None,
                       out_fetched = res_fetched res\<rparr>
              | Some best \<Rightarrow>
                  (let pos = buildPosition now best cfg;
                       state2 = state1\<lparr>openPosition := Some pos\<rparr>;
                       state3 = markAndSnapshot now state2 (tokenId pos) (mark_mid (lastMark pos))
                                  (mark_bid (lastMark pos)) (mark_ask (lastMark pos))
                   in Inr \<lparr>out_state = state3, out_log = [(pos_id pos, OPEN now pos)],
                           out_closed = None, out_fetched = res_fetched res\<rparr>)))"

definition monitorCycle :: "config \<Rightarrow> env \<Rightarrow> run_state \<Rightarrow> position \<Rightarrow> cycle_out" where
  "monitorCycle cfg e state p =
     (let now = env_now e;
          idle = \<lparr>out_state = state, out_log = [], out_closed = None,
                  out_fetched = [tokenId p]\<rparr>
      in case env_book e (tokenId p) of
           None \<Rightarrow> idle
         | Some bk \<Rightarrow>
             (case (bestBid (bestBidAsk bk), bestAsk (bestBidAsk bk)) of
                (Some bb, Some ba) \<Rightarrow>
                  (let mid = (bb + ba) / 2;
                       mk = \<lparr>mark_t = now, mark_mid = mid, mark_bid = bb, mark_ask = ba\<rparr>;
                       p1 = p\<lparr>lastMark := mk\<rparr>;
                       state1 = markAndSnapshot now (state\<lparr>openPosition := Some p1\<rparr>)
                                  (tokenId p1) mid bb ba
                   in case shouldExit now p1 mk of
                        None \<Rightarrow>
                          \<lparr>out_state = state1, out_log = [(pos_id p1, MARK now bb ba mid)],
                           out_closed = None, out_fetched = [tokenId p]\<rparr>
                      | Some exitDecision \<Rightarrow>
                          (let exitFill = marketFill bk Sell
                                 (rnd (min (pos_notional p1)
                                        (entry_avgPrice (entry p1) * entry_shares (entry p1))));
                               exitAvg = (case exitFill of Some f \<Rightarrow> valueOf (avgPrice f)
                                          | None \<Rightarrow> bb);
                               pnlPerShare = exitAvg - entry_avgPrice (entry p1);
                               pnl = pnlPerShare * entry_shares (entry p1);
                               closed =
                                 \<lparr>ct_id = pos_id p1, ct_openedAt = openedAt p1, ct_closedAt = now,
                                  ct_durationMs = now - openedAt p1, ct_marketId = marketId p1,
                                  ct_question = question p1, ct_url = url p1,
                                  ct_tokenId = tokenId p1, ct_notional = pos_notional p1,
                                  ct_entryAvg = entry_avgPrice (entry p1), ct_exitAvg = exitAvg,
                                  ct_shares = entry_shares (entry p1), ct_pnl = pnl,
                                  ct_exitReason = reason exitDecision, ct_exits = exits p1,
                                  ct_lastMark = lastMark p1\<rparr>
                           in \<lparr>out_state = state1\<lparr>lastClosedId := Some (pos_id p1),
                                                    openPosition := None\<rparr>,
                               out_log = [(pos_id p1, MARK now bb ba mid),
                                          (pos_id p1, CLOSE now (reason exitDecision) exitAvg pnl)],
                               out_closed = Some closed, out_fetched = [tokenId p]\<rparr>))
              | _ \<Rightarrow> idle))"

text \<open>\<^verbatim>\<open>if (!state.openPosition) { ... scan ... continue; }  ... monitor ...\<close>\<close>

definition cycle :: "config \<Rightarrow> env \<Rightarrow> run_state \<Rightarrow> error + cycle_out" where
  "cycle cfg e state =
     (case openPosition state of
        None \<Rightarrow> scanCycle cfg e state
      | Some p \<Rightarrow> Inr (monitorCycle cfg e state p))"

text \<open>
  The loop of \<^verbatim>\<open>run\<close> over the turns the list of environments gives: the state on disk after
  them and the whole trade log, or the error that ended the run.
\<close>

fun run ::
  "config \<Rightarrow> env list \<Rightarrow> run_state \<Rightarrow> error + run_state \<times> (trade_id \<times> trade_event) list" where
  "run cfg [] state = Inr (state, [])"
| "run cfg (e # es) state =
     (case cycle cfg e state of
        Inl err \<Rightarrow> Inl err
      | Inr out \<Rightarrow>
          (case run cfg es (out_state out) of
             Inl err \<Rightarrow> Inl err
           | Inr (state', evs) \<Rightarrow> Inr (state', out_log out @ evs)))"

text \<open>
  Reading a trade log as a run of the position state machine, from whether a position is
  open: an \<open>OPEN\<close> record needs the slot empty and fills it, a \<open>MARK\<close> needs it full, a
  \<open>CLOSE\<close> needs it full and empties it. \<open>None\<close> is a log that breaks the rule.
\<close>

fun replay :: "bool \<Rightarrow> trade_event list \<Rightarrow> bool option" where
  "replay isOpen [] = Some isOpen"
| "replay isOpen (OPEN t p # evs) = (if isOpen then None else replay True evs)"
| "replay isOpen (MARK t b a m # evs) = (if isOpen then replay True evs else None)"
| "replay isOpen (CLOSE t r x pnl # evs) = (if isOpen then replay False evs else None)"

text \<open>
  What observing a token gives: its order book was fetched and has both a best bid and a
  best ask. The result is the snapshot update the engine pushes for the token.
\<close>

definition observe :: "clob \<Rightarrow> string \<Rightarrow> snapshot_update option" where
  "observe fetchBook tok =
     (case fetchBook tok of
        None \<Rightarrow> None
      | Some bk \<Rightarrow>
          (case (bestBid (bestBidAsk bk), bestAsk (bestBidAsk bk)) of
             (Some b, Some a) \<Rightarrow>
               Some \<lparr>su_tokenId = tok, su_mid = (b + a) / 2, su_bid = b, su_ask = a\<rparr>
           | _ \<Rightarrow> None))"

definition snapshotOf :: "real \<Rightarrow> snapshot_update \<Rightarrow> snapshot" where
  "snapshotOf now u =
     \<lparr>snap_mid = su_mid u, snap_bid = su_bid u, snap_ask = su_ask u, snap_t = now\<rparr>"

section \<open>Concrete inputs\<close>

text \<open>
  The prices and sizes of the books below are doubles (dyadic fractions). A position opened
  at time 0 at an entry price of 0.390625 with the default offsets: take profit at 0.410625,
  stop loss at 0.370625, held for at most an hour.
\<close>

definition examplePosition :: position where
  "examplePosition =
     \<lparr>pos_id = (0, ''m1'', ''tokA''), openedAt = 0, marketId = ''m1'', question = ''Q'',
      url = ''https://polymarket.com/market/s1'', tokenId = ''tokA'', pos_notional = 200,
      entry = \<lparr>entry_avgPrice = 25 / 64, entry_shares = 512, bookBid = 3 / 8,
                bookAsk = 25 / 64, entry_spread = 1 / 64\<rparr>,
      exits = \<lparr>takeProfitPrice = 657 / 1600, stopLossPrice = 593 / 1600,
                maxHoldMs = 3600000\<rparr>,
      status = ''OPEN'',
      lastMark = \<lparr>mark_t = 0, mark_mid = 49 / 128, mark_bid = 3 / 8, mark_ask = 25 / 64\<rparr>\<rparr>"

definition markAt :: "real \<Rightarrow> real \<Rightarrow> mark" where
  "markAt now bid = \<lparr>mark_t = now, mark_mid = bid + 1 / 200, mark_bid = bid, mark_ask = bid + 1 / 100\<rparr>"

text \<open>
  A binary market of the catalog whose end date does not parse, its two order books, and a
  state on disk that saw token A at a mid of 0.34375 half a minute before.
\<close>

definition lvl :: "real \<Rightarrow> real \<Rightarrow> raw_level" where
  "lvl p s = \<lparr>raw_price = Finite p, raw_size = Finite s\<rparr>"

definition exampleMarket :: market where
  "exampleMarket =
     \<lparr>m_id = ''m1'', m_question = ''Q'', m_slug = ''s1'', m_closed = False,
      m_enableOrderBook = True, m_acceptingOrders = None, m_volume24hr = Some 99999,
      m_liquidityNum = Some 20000, m_liquidity = None, m_outcomes = [''Yes'', ''No''],
      m_outcomePrices = [Finite (3 / 8), Finite (5 / 8)],
      m_clobTokenIds = [''tokA'', ''tokB''], m_endDate = None\<rparr>"

definition exampleBooks :: clob where
  "exampleBooks tok =
     (if tok = ''tokA'' then Some \<lparr>bids = [lvl (3 / 8) 1000], asks = [lvl (25 / 64) 1000]\<rparr>
      else if tok = ''tokB'' then Some \<lparr>bids = [lvl (39 / 64) 1000], asks = [lvl (5 / 8) 1000]\<rparr>
      else None)"

definition emptyState :: run_state where
  "emptyState =
     \<lparr>createdAt = ''2024'', lastScanAt = None, openPosition = None, lastClosedId = None,
      snapshots = \<lparr>byToken = [''tokA'' \<mapsto> \<lparr>snap_mid = 11 / 32, snap_bid = 43 / 128,
                                            snap_ask = 45 / 128, snap_t = - 30000\<rparr>],
                   snapshots_t = - 30000\<rparr>\<rparr>"

definition scanEnv :: env where
  "scanEnv = \<lparr>env_now = 0, env_catalog = Some [exampleMarket], env_book = exampleBooks\<rparr>"

text \<open>
  The opportunity the engine finds there: token A moved by 0.0390625 at a spread of
  0.015625, and 200 units buy 512 shares at 0.390625.
\<close>

definition exampleOpportunity :: opportunity where
  "exampleOpportunity =
     \<lparr>op_score = liveScore (5 / 128) (1 / 64) (1 / 50) 99999, op_market = exampleMarket,
      op_chosen = \<lparr>ch_tokenId = ''tokA'', ch_mid = 49 / 128, ch_prevMid = 11 / 32,
                   ch_move = 5 / 128, ch_spread = 1 / 64, ch_bid = 3 / 8, ch_ask = 25 / 64,
                   ch_entry = \<lparr>avgPrice = Fin (25 / 64), shares = Fin 512,
                                notional = Fin 200\<rparr>\<rparr>,
      op_url = ''https://polymarket.com/market/s1''\<rparr>"

text \<open>A minute later, with the position held and the bid of token A at 0.5.\<close>

definition heldState :: run_state where
  "heldState = emptyState\<lparr>openPosition := Some examplePosition\<rparr>"

definition takeProfitEnv :: env where
  "takeProfitEnv =
     \<lparr>env_now = 60000, env_catalog = None,
      env_book = (\<lambda>tok. if tok = ''tokA''
                         then Some \<lparr>bids = [lvl (1 / 2) 1000], asks = [lvl (33 / 64) 1000]\<rparr>
                         else None)\<rparr>"

text \<open>A state on disk that has seen no token yet: the first scan measures no move.\<close>

definition freshState :: run_state where
  "freshState = emptyState\<lparr>snapshots := \<lparr>byToken = Map.empty, snapshots_t = 0\<rparr>\<rparr>"

text \<open>
  For the report: its default arguments, the same market ending in an hour, and two books
  with a spread of 0.1875, wider than the maximum of 0.12.
\<close>

definition exampleArgs :: args where
  "exampleArgs =
     \<lparr>arg_maxAlerts = 5, arg_limit = 200, arg_minVolume24h = 3000, arg_minLiquidity = 1500,
      arg_notional = 100, arg_maxEndHours = 24 * 365 * 2, arg_maxSpread = 12 / 100\<rparr>"

definition endingMarket :: market where
  "endingMarket = exampleMarket\<lparr>m_endDate := Some 3600000\<rparr>"

definition wideBooks :: clob where
  "wideBooks tok =
     (if tok = ''tokA'' then Some \<lparr>bids = [lvl (5 / 16) 1000], asks = [lvl (1 / 2) 1000]\<rparr>
      else if tok = ''tokB'' then Some \<lparr>bids = [lvl (1 / 2) 1000], asks = [lvl (11 / 16) 1000]\<rparr>
      else None)"

definition emptyDoc :: snapshot_doc where
  "emptyDoc = \<lparr>doc_t = - 1, doc_byToken = Map.empty\<rparr>"

text \<open>The same scan when the request for the book of token B fails.\<close>

definition oneSidedEnv :: env where
  "oneSidedEnv =
     \<lparr>env_now = 0, env_catalog = Some [exampleMarket],
      env_book = (\<lambda>tok. if tok = ''tokA'' then exampleBooks tok else None)\<rparr>"

text \<open>
  For the fill simulator: a book with one ask of 1024 shares at 0.453125; the book with the
  asks 3055.21 at 0.27 and 1274.09 at 0.82 and the notional 1869.660501, each decimal as
  the double it denotes; a book with ample depth on two levels; a book with a depth of 50.
\<close>

definition roundedBook :: book where
  "roundedBook = \<lparr>bids = [], asks = [lvl (29 / 64) 1024]\<rparr>"

definition shortBook :: book where
  "shortBook =
     \<lparr>bids = [],
      asks = [lvl (607985949695017 / 2 ^ 51) (3359238920297513 / 2 ^ 40),
              lvl (7385903388887613 / 2 ^ 53) (5603507079332495 / 2 ^ 42)]\<rparr>"

definition shortNotional :: real where
  "shortNotional = 8222853843372007 / 2 ^ 42"

definition twoLevelBook :: book where
  "twoLevelBook = \<lparr>bids = [], asks = [lvl (1 / 2) 1000, lvl (3 / 4) 1000]\<rparr>"

definition shallowBook :: book where
  "shallowBook = \<lparr>bids = [], asks = [lvl (1 / 2) 100]\<rparr>"

section \<open>Properties of the rounding\<close>

lemma pow2_pos: "0 < pow2 k"
  by (simp add: pow2_def)

lemma pow2_add: "pow2 (a + b) = pow2 a * pow2 b"
  by (simp add: pow2_def powr_add)

lemma pow2_mono: "a \<le> b \<Longrightarrow> pow2 a \<le> pow2 b"
  by (simp add: pow2_def)

lemma pow2_strict_mono: "a < b \<Longrightarrow> pow2 a < pow2 b"
  by (simp add: pow2_def)

lemma pow2_nat: "pow2 (int n) = 2 ^ n"
  by (simp add: pow2_def powr_realpow)

lemma pow2_neg_nat: "pow2 (- int n) = 1 / 2 ^ n"
  by (simp add: pow2_def powr_minus powr_realpow inverse_eq_divide)

lemma pow2_0 [simp]: "pow2 0 = 1"
  by (simp add: pow2_def)

lemma pow2_diff: "pow2 (a - b) = pow2 a / pow2 b"
  by (simp add: pow2_def powr_diff)

lemma ulp_pos: "0 < ulp x"
  by (simp add: ulp_def pow2_pos)

lemma floor_log2_bounds:
  assumes "0 < x"
  shows "pow2 \<lfloor>log 2 x\<rfloor> \<le> x" and "x < pow2 (\<lfloor>log 2 x\<rfloor> + 1)"
proof -
  have "real_of_int \<lfloor>log 2 x\<rfloor> \<le> log 2 x" by simp
  then show "pow2 \<lfloor>log 2 x\<rfloor> \<le> x"
    unfolding pow2_def using assms le_log_iff[of 2 x "real_of_int \<lfloor>log 2 x\<rfloor>"] by simp
  have "log 2 x < real_of_int (\<lfloor>log 2 x\<rfloor> + 1)" by linarith
  then show "x < pow2 (\<lfloor>log 2 x\<rfloor> + 1)"
    unfolding pow2_def using assms log_less_iff[of 2 x "real_of_int (\<lfloor>log 2 x\<rfloor> + 1)"] by simp
qed

lemma floor_log2_eq:
  assumes "pow2 k \<le> x" "x < pow2 (k + 1)"
  shows "\<lfloor>log 2 x\<rfloor> = k"
proof -
  have x: "0 < x" using assms(1) pow2_pos[of k] by linarith
  have "real_of_int k \<le> log 2 x"
    using assms(1) x le_log_iff[of 2 x "real_of_int k"] by (simp add: pow2_def)
  moreover have "log 2 x < real_of_int (k + 1)"
    using assms(2) x log_less_iff[of 2 x "real_of_int (k + 1)"] unfolding pow2_def by simp
  ultimately show ?thesis by linarith
qed

lemma roundEven_of_int [simp]: "roundEven (real_of_int n) = n"
  by (simp add: roundEven_def)

lemma roundEven_near: "\<bar>real_of_int (roundEven m) - m\<bar> \<le> 1 / 2"
  unfolding roundEven_def Let_def by (auto; linarith)

lemma roundEven_mono: "a \<le> b \<Longrightarrow> roundEven a \<le> roundEven b"
proof -
  assume ab: "a \<le> b"
  have fl: "\<lfloor>a\<rfloor> \<le> \<lfloor>b\<rfloor>" using ab by (rule floor_mono)
  show ?thesis
  proof (cases "\<lfloor>a\<rfloor> = \<lfloor>b\<rfloor>")
    case True
    then show ?thesis using ab unfolding roundEven_def Let_def by (auto; linarith)
  next
    case False
    with fl have "\<lfloor>a\<rfloor> + 1 \<le> \<lfloor>b\<rfloor>" by simp
    moreover have "roundEven a \<le> \<lfloor>a\<rfloor> + 1" unfolding roundEven_def Let_def by auto
    moreover have "\<lfloor>b\<rfloor> \<le> roundEven b" unfolding roundEven_def Let_def by auto
    ultimately show ?thesis by linarith
  qed
qed

lemma roundEven_0 [simp]: "roundEven 0 = 0"
  using roundEven_of_int[of 0] by simp

lemma roundEven_nonneg: "0 \<le> m \<Longrightarrow> 0 \<le> roundEven m"
  using roundEven_mono[of 0 m] by simp

lemma roundEven_nonpos: "m \<le> 0 \<Longrightarrow> roundEven m \<le> 0"
  using roundEven_mono[of m 0] by simp

lemma roundEven_le_int: "m \<le> real_of_int n \<Longrightarrow> roundEven m \<le> n"
  using roundEven_mono[of m "real_of_int n"] by simp

lemma roundEven_ge_int: "real_of_int n \<le> m \<Longrightarrow> n \<le> roundEven m"
  using roundEven_mono[of "real_of_int n" m] by simp

lemma roundEven_minus: "roundEven (- m) = - roundEven m"
proof (cases "m = real_of_int \<lfloor>m\<rfloor>")
  case True
  then obtain n where "m = real_of_int n" by blast
  then have "- m = real_of_int (- n)" by simp
  then show ?thesis using \<open>m = real_of_int n\<close> by (simp only: roundEven_of_int)
next
  case False
  define f where "f = \<lfloor>m\<rfloor>"
  have lt: "real_of_int f < m" "m < real_of_int f + 1"
    using False unfolding f_def by linarith+
  have fm: "\<lfloor>- m\<rfloor> = - f - 1" using lt by linarith
  have ev: "even (- f - 1) \<longleftrightarrow> odd f" by simp
  show ?thesis
    unfolding roundEven_def Let_def fm f_def[symmetric]
    using lt ev by (auto simp: algebra_simps)
qed

lemma expo_minus [simp]: "expo (- x) = expo x"
  by (simp add: expo_def)

lemma ulp_minus [simp]: "ulp (- x) = ulp x"
  by (simp add: ulp_def)

lemma expo_ge [simp]: "- 1022 \<le> expo x"
  by (simp add: expo_def)

lemma abs_less_pow2_expo:
  assumes "x \<noteq> 0"
  shows "\<bar>x\<bar> < pow2 (expo x + 1)"
proof -
  have a: "0 < \<bar>x\<bar>" using assms by simp
  have "\<bar>x\<bar> < pow2 (\<lfloor>log 2 \<bar>x\<bar>\<rfloor> + 1)" using floor_log2_bounds(2)[OF a] .
  also have "\<dots> \<le> pow2 (expo x + 1)" by (rule pow2_mono) (simp add: expo_def)
  finally show ?thesis .
qed

lemma pow2_expo_le_abs:
  assumes "x \<noteq> 0" "- 1022 \<le> \<lfloor>log 2 \<bar>x\<bar>\<rfloor>"
  shows "pow2 (expo x) \<le> \<bar>x\<bar>"
proof -
  have a: "0 < \<bar>x\<bar>" using assms by simp
  from assms(2) have "expo x = \<lfloor>log 2 \<bar>x\<bar>\<rfloor>" by (simp add: expo_def)
  with floor_log2_bounds(1)[OF a] show ?thesis by simp
qed

lemma scaled_less: 
  assumes "x \<noteq> 0"
  shows "\<bar>x\<bar> / ulp x < pow2 53"
proof -
  have "\<bar>x\<bar> < pow2 (expo x + 1)" by (rule abs_less_pow2_expo[OF assms])
  also have "pow2 (expo x + 1) = pow2 53 * ulp x"
    using pow2_add[of 53 "expo x - 52"] by (simp add: ulp_def add.commute)
  finally show ?thesis using ulp_pos[of x] by (simp add: pos_divide_less_eq)
qed

lemma scaled_ge:
  assumes "x \<noteq> 0" "- 1022 \<le> \<lfloor>log 2 \<bar>x\<bar>\<rfloor>"
  shows "pow2 52 \<le> \<bar>x\<bar> / ulp x"
proof -
  have "pow2 52 * ulp x = pow2 (expo x)"
    using pow2_add[of 52 "expo x - 52"] by (simp add: ulp_def)
  also have "\<dots> \<le> \<bar>x\<bar>" by (rule pow2_expo_le_abs[OF assms])
  finally show ?thesis using ulp_pos[of x] by (simp add: pos_le_divide_eq)
qed

lemma pow2_53_int: "pow2 53 = real_of_int (2 ^ 53)"
  using pow2_nat[of 53] by simp

lemma pow2_52_int: "pow2 52 = real_of_int (2 ^ 52)"
  using pow2_nat[of 52] by simp

lemma rnd_alt:
  "rnd x = (if x = 0 then Fin 0
            else if rval x \<ge> pow2 1024 then PosInf
            else if rval x \<le> - pow2 1024 then NegInf else Fin (rval x))"
  using pow2_pos[of 1024] by (simp add: rnd_def rval_def)

lemma rval_minus: "rval (- x) = - rval x"
  by (simp add: rval_def roundEven_minus)

lemma rval_nonneg: "0 \<le> x \<Longrightarrow> 0 \<le> rval x"
proof -
  assume "0 \<le> x"
  then have "0 \<le> x / ulp x" using ulp_pos[of x] by simp
  then have "0 \<le> roundEven (x / ulp x)" by (rule roundEven_nonneg)
  then show ?thesis unfolding rval_def using ulp_pos[of x] by simp
qed

lemma rval_nonpos: "x \<le> 0 \<Longrightarrow> rval x \<le> 0"
  using rval_nonneg[of "- x"] by (simp add: rval_minus)

lemma rval_le_pow2:
  assumes "0 < x"
  shows "rval x \<le> pow2 (expo x + 1)"
proof -
  have "x / ulp x \<le> real_of_int (2 ^ 53)"
    using scaled_less[of x] assms by (simp add: pow2_53_int)
  then have "roundEven (x / ulp x) \<le> 2 ^ 53" by (rule roundEven_le_int)
  then have "real_of_int (roundEven (x / ulp x)) \<le> pow2 53"
    unfolding pow2_53_int by linarith
  then have "rval x \<le> pow2 53 * ulp x"
    unfolding rval_def using ulp_pos[of x] by (simp add: mult_right_mono)
  also have "pow2 53 * ulp x = pow2 (expo x + 1)"
    using pow2_add[of 53 "expo x - 52"] by (simp add: ulp_def add.commute)
  finally show ?thesis .
qed

lemma rval_ge_pow2:
  assumes "0 < x" "- 1022 \<le> \<lfloor>log 2 \<bar>x\<bar>\<rfloor>"
  shows "pow2 (expo x) \<le> rval x"
proof -
  have "real_of_int (2 ^ 52) \<le> x / ulp x"
    using scaled_ge[of x] assms by (simp add: pow2_52_int)
  then have "2 ^ 52 \<le> roundEven (x / ulp x)" by (rule roundEven_ge_int)
  then have "pow2 52 \<le> real_of_int (roundEven (x / ulp x))"
    unfolding pow2_52_int by linarith
  then have "pow2 52 * ulp x \<le> rval x"
    unfolding rval_def using ulp_pos[of x] by (simp add: mult_right_mono)
  moreover have "pow2 52 * ulp x = pow2 (expo x)"
    using pow2_add[of 52 "expo x - 52"] by (simp add: ulp_def)
  ultimately show ?thesis by simp
qed

lemma expo_mono:
  assumes "0 < x" "x \<le> y"
  shows "expo x \<le> expo y"
proof -
  have "log 2 x \<le> log 2 y" using assms by simp
  then have "\<lfloor>log 2 x\<rfloor> \<le> \<lfloor>log 2 y\<rfloor>" by (rule floor_mono)
  with assms show ?thesis by (simp add: expo_def)
qed

lemma rval_mono_pos:
  assumes "0 < x" "x \<le> y"
  shows "rval x \<le> rval y"
proof (cases "expo x = expo y")
  case True
  then have u: "ulp x = ulp y" by (simp add: ulp_def)
  have "x / ulp y \<le> y / ulp y"
    using assms(2) ulp_pos[of y] by (simp add: divide_le_cancel)
  then have "roundEven (x / ulp y) \<le> roundEven (y / ulp y)" by (rule roundEven_mono)
  then show ?thesis unfolding rval_def u using ulp_pos[of y] by (simp add: mult_right_mono)
next
  case False
  with expo_mono[OF assms] have lt: "expo x + 1 \<le> expo y" by simp
  have y: "0 < y" using assms by linarith
  have "- 1022 < expo y" using lt expo_ge[of x] by linarith
  then have fl: "- 1022 \<le> \<lfloor>log 2 \<bar>y\<bar>\<rfloor>" by (simp add: expo_def max_def split: if_splits)
  have "rval x \<le> pow2 (expo x + 1)" by (rule rval_le_pow2[OF assms(1)])
  also have "\<dots> \<le> pow2 (expo y)" using lt by (rule pow2_mono)
  also have "\<dots> \<le> rval y" by (rule rval_ge_pow2[OF y fl])
  finally show ?thesis .
qed

lemma rval_0 [simp]: "rval 0 = 0"
  by (simp add: rval_def)

lemma rval_mono: "x \<le> y \<Longrightarrow> rval x \<le> rval y"
proof -
  assume xy: "x \<le> y"
  consider "0 < x" | "x \<le> 0" "0 \<le> y" | "y < 0" by linarith
  then show ?thesis
  proof cases
    case 1
    then show ?thesis using xy by (rule rval_mono_pos)
  next
    case 2
    then show ?thesis using rval_nonpos[of x] rval_nonneg[of y] by linarith
  next
    case 3
    then have "0 < - y" "- y \<le> - x" using xy by simp_all
    from rval_mono_pos[OF this] show ?thesis by (simp add: rval_minus)
  qed
qed

lemma rnd_not_NaN [simp]: "rnd x \<noteq> NaN"
  by (simp add: rnd_alt)

lemma rnd_0 [simp]: "rnd 0 = Fin 0"
  by (simp add: rnd_alt)

lemma rnd_mono: "x \<le> y \<Longrightarrow> dle (rnd x) (rnd y)"
proof -
  assume xy: "x \<le> y"
  have p: "- pow2 1024 < pow2 1024" using pow2_pos[of 1024] by linarith
  from rval_mono[OF xy] have r: "rval x \<le> rval y" .
  have x0: "x = 0 \<Longrightarrow> rval x = 0" and y0: "y = 0 \<Longrightarrow> rval y = 0" by simp_all
  show ?thesis
    using r p xy rval_nonneg[of y] rval_nonpos[of x] rval_nonneg[of x] rval_nonpos[of y]
      pow2_pos[of 1024]
    by (auto simp: rnd_alt)
qed

lemma floor_log2_le:
  assumes "0 < y" "y < pow2 (k + 1)"
  shows "\<lfloor>log 2 y\<rfloor> \<le> k"
proof -
  have "log 2 y < real_of_int (k + 1)"
    using assms log_less_iff[of 2 y "real_of_int (k + 1)"] unfolding pow2_def by simp
  then show ?thesis by linarith
qed

lemma rval_exact:
  assumes "0 < y" "y = real_of_int M * pow2 (k - 52)" "- 1022 \<le> k"
    and "y < pow2 (k + 1)" "k = - 1022 \<or> pow2 k \<le> y"
  shows "rval y = y"
proof -
  have "expo y = k"
  proof (cases "pow2 k \<le> y")
    case True
    from floor_log2_eq[OF True assms(4)] have "\<lfloor>log 2 y\<rfloor> = k" .
    with assms(1,3) show ?thesis by (simp add: expo_def)
  next
    case False
    with assms(5) have k: "k = - 1022" by simp
    from floor_log2_le[OF assms(1,4)] have "\<lfloor>log 2 y\<rfloor> \<le> k" .
    with k assms(1) show ?thesis by (simp add: expo_def)
  qed
  then have u: "ulp y = pow2 (k - 52)" by (simp add: ulp_def)
  have "y / ulp y = real_of_int M" unfolding u using assms(2) pow2_pos[of "k - 52"] by simp
  then show ?thesis unfolding rval_def using assms(2) u by simp
qed

lemma rval_idem_pos:
  assumes "0 < x"
  shows "rval (rval x) = rval x"
proof -
  define e where "e = expo x"
  define M where "M = roundEven (x / ulp x)"
  define y where "y = rval x"
  have q: "ulp x = pow2 (e - 52)" by (simp add: ulp_def e_def)
  have y: "y = real_of_int M * pow2 (e - 52)" by (simp add: y_def rval_def M_def q)
  have M0: "0 \<le> M" unfolding M_def using assms ulp_pos[of x] by (intro roundEven_nonneg) simp
  have yle: "y \<le> pow2 (e + 1)" unfolding y_def e_def by (rule rval_le_pow2[OF assms])
  have e: "- 1022 \<le> e" by (simp add: e_def)
  show ?thesis
  proof (cases "y = 0")
    case True
    then show ?thesis by (simp add: y_def)
  next
    case False
    with M0 y pow2_pos[of "e - 52"] have ypos: "0 < y"
      by (metis less_eq_real_def mult_nonneg_nonneg of_int_0_le_iff)
    show ?thesis
    proof (cases "y = pow2 (e + 1)")
      case True
      have "52 + ((e + 1) - 52) = e + 1" by simp
      from pow2_add[of 52 "(e + 1) - 52", unfolded this]
      have "y = real_of_int (2 ^ 52) * pow2 ((e + 1) - 52)"
        using True pow2_nat[of 52] by simp
      moreover have "y < pow2 ((e + 1) + 1)" unfolding True by (rule pow2_strict_mono) simp
      moreover have "pow2 (e + 1) \<le> y" using True by simp
      ultimately have "rval y = y" using ypos e by (intro rval_exact[where k="e + 1"]) auto
      then show ?thesis by (simp add: y_def)
    next
      case F2: False
      with yle have ylt: "y < pow2 (e + 1)" by simp
      have "e = - 1022 \<or> pow2 e \<le> y"
      proof (cases "- 1022 \<le> \<lfloor>log 2 \<bar>x\<bar>\<rfloor>")
        case True
        from rval_ge_pow2[OF assms True] show ?thesis by (simp add: y_def e_def)
      next
        case False
        then show ?thesis by (simp add: e_def expo_def)
      qed
      with ypos y e ylt have "rval y = y" by (intro rval_exact[where k=e and M=M]) auto
      then show ?thesis by (simp add: y_def)
    qed
  qed
qed

lemma rval_idem: "rval (rval x) = rval x"
proof -
  consider "0 < x" | "x = 0" | "x < 0" by linarith
  then show ?thesis
  proof cases
    case 1
    then show ?thesis by (rule rval_idem_pos)
  next
    case 2
    then show ?thesis by simp
  next
    case 3
    then have "0 < - x" by simp
    from rval_idem_pos[OF this] show ?thesis by (simp add: rval_minus)
  qed
qed

lemma rnd_Fin_rval: "rnd x = Fin y \<Longrightarrow> y = rval x"
  by (auto simp: rnd_alt split: if_splits)

lemma rnd_idem:
  assumes "rnd x = Fin y"
  shows "isDouble y"
proof -
  from assms have y: "y = rval x" by (rule rnd_Fin_rval)
  from assms have b: "x \<noteq> 0 \<Longrightarrow> \<not> rval x \<ge> pow2 1024 \<and> \<not> rval x \<le> - pow2 1024"
    by (auto simp: rnd_alt split: if_splits)
  show ?thesis
  proof (cases "y = 0")
    case True
    then show ?thesis by (simp add: isDouble_def)
  next
    case False
    then have "x \<noteq> 0" using y by auto
    with b y have "\<not> y \<ge> pow2 1024" "\<not> y \<le> - pow2 1024" by simp_all
    moreover have "rval y = y" unfolding y by (rule rval_idem)
    ultimately show ?thesis using False by (simp add: isDouble_def rnd_alt)
  qed
qed

lemma rnd_scaled:
  assumes "2 ^ 52 \<le> \<bar>x\<bar> * 2 ^ j" "\<bar>x\<bar> * 2 ^ j < 2 ^ 53" "j \<le> 1074"
  shows "rnd x = Fin (real_of_int (roundEven (x * 2 ^ j)) / 2 ^ j)"
proof -
  have x: "x \<noteq> 0" using assms(1) by auto
  have p: "pow2 (- int j) = 1 / 2 ^ j" by (rule pow2_neg_nat)
  have p52: "pow2 (52 - int j) = 2 ^ 52 / 2 ^ j"
    using pow2_add[of 52 "- int j"] pow2_nat[of 52] p by simp
  have "53 + (- int j) = (52 - int j) + 1" by simp
  from pow2_add[of 53 "- int j", unfolded this]
  have p53: "pow2 ((52 - int j) + 1) = 2 ^ 53 / 2 ^ j"
    using pow2_nat[of 53] p by simp
  have a1: "pow2 (52 - int j) \<le> \<bar>x\<bar>"
    unfolding p52 using assms(1) by (simp add: pos_divide_le_eq)
  have a2: "\<bar>x\<bar> < pow2 ((52 - int j) + 1)"
    unfolding p53 using assms(2) by (simp add: pos_less_divide_eq)
  from floor_log2_eq[OF a1 a2] have "\<lfloor>log 2 \<bar>x\<bar>\<rfloor> = 52 - int j" .
  with assms(3) have e: "expo x = 52 - int j" by (simp add: expo_def)
  then have u: "ulp x = 1 / 2 ^ j" using p by (simp add: ulp_def)
  have rv: "rval x = real_of_int (roundEven (x * 2 ^ j)) / 2 ^ j"
    by (simp add: rval_def u)
  have "\<bar>x * 2 ^ j\<bar> \<le> real_of_int (2 ^ 53)" using assms(2) by (simp add: abs_mult)
  then have "x * 2 ^ j \<le> real_of_int (2 ^ 53)" "real_of_int (- (2 ^ 53)) \<le> x * 2 ^ j"
    by (simp_all add: abs_le_iff)
  then have "roundEven (x * 2 ^ j) \<le> 2 ^ 53" "- (2 ^ 53) \<le> roundEven (x * 2 ^ j)"
    by (auto intro: roundEven_le_int roundEven_ge_int)
  then have R: "\<bar>real_of_int (roundEven (x * 2 ^ j))\<bar> \<le> 2 ^ 53" by simp
  have "\<bar>rval x\<bar> = \<bar>real_of_int (roundEven (x * 2 ^ j))\<bar> / 2 ^ j"
    unfolding rv by (simp add: abs_divide)
  also have "\<dots> \<le> \<bar>real_of_int (roundEven (x * 2 ^ j))\<bar> / 1"
    by (intro divide_left_mono) simp_all
  also have "\<dots> \<le> 2 ^ 53" using R by simp
  finally have "\<bar>rval x\<bar> \<le> 2 ^ 53" .
  moreover have "(2::real) ^ 53 < pow2 1024" using pow2_strict_mono[of 53 1024] pow2_nat[of 53] by simp
  ultimately have "\<not> rval x \<ge> pow2 1024" "\<not> rval x \<le> - pow2 1024" by (simp_all add: abs_le_iff)
  with x rv show ?thesis by (simp add: rnd_alt)
qed

lemma rnd_1 [simp]: "rnd 1 = Fin 1"
proof -
  have "rnd 1 = Fin (real_of_int (roundEven (1 * 2 ^ 52)) / 2 ^ 52)"
    by (rule rnd_scaled) simp_all
  moreover have "roundEven (1 * 2 ^ 52) = 2 ^ 52"
    using roundEven_of_int[of "2 ^ 52"] by simp
  ultimately show ?thesis by simp
qed

lemma rnd_dyadic:
  assumes "\<bar>k\<bar> < 2 ^ 53" "j \<le> 1074"
  shows "rnd (real_of_int k / 2 ^ j) = Fin (real_of_int k / 2 ^ j)"
proof (cases "k = 0")
  case True
  then show ?thesis by simp
next
  case False
  define x where "x = real_of_int k / 2 ^ j"
  have xa: "\<bar>x\<bar> = real_of_int \<bar>k\<bar> / 2 ^ j" by (simp add: x_def)
  have x0: "x \<noteq> 0" using False by (simp add: x_def)
  have "real_of_int \<bar>k\<bar> < real_of_int (2 ^ 53)" using assms(1) by linarith
  then have "\<bar>x\<bar> < 2 ^ 53 / 2 ^ j" unfolding xa by (simp add: divide_strict_right_mono)
  also have "\<dots> = pow2 (53 - int j)"
    using pow2_add[of 53 "- int j"] pow2_nat[of 53] pow2_neg_nat[of j] by simp
  finally have lt: "\<bar>x\<bar> < pow2 ((52 - int j) + 1)" by (simp add: algebra_simps)
  have "\<lfloor>log 2 \<bar>x\<bar>\<rfloor> \<le> 52 - int j" using x0 lt by (intro floor_log2_le) auto
  with assms(2) have e: "expo x \<le> 52 - int j" by (simp add: expo_def)
  define d where "d = nat (52 - int j - expo x)"
  have d: "int d = 52 - int j - expo x" using e by (simp add: d_def)
  have "expo x - 52 = - int j - int d" using d by simp
  then have "ulp x = pow2 (- int j) / pow2 (int d)" by (simp add: ulp_def pow2_diff)
  then have u: "ulp x = 1 / (2 ^ j * 2 ^ d)" by (simp add: pow2_nat pow2_neg_nat)
  have "x / ulp x = real_of_int (k * 2 ^ d)" unfolding u by (simp add: x_def)
  then have re: "roundEven (x / ulp x) = k * 2 ^ d" by (simp only: roundEven_of_int)
  have "rval x = real_of_int (k * 2 ^ d) * ulp x" by (simp only: rval_def re)
  also have "\<dots> = x" unfolding u by (simp add: x_def)
  finally have rv: "rval x = x" .
  have "\<bar>x\<bar> < pow2 1024" 
  proof -
    have "pow2 ((52 - int j) + 1) \<le> pow2 1024" by (rule pow2_mono) simp
    with lt show ?thesis by simp
  qed
  then have "\<not> rval x \<ge> pow2 1024" "\<not> rval x \<le> - pow2 1024" unfolding rv by (simp_all add: abs_less_iff)
  with rv x0 have "rnd x = Fin x" by (simp add: rnd_alt)
  then show ?thesis by (simp add: x_def)
qed

lemma rnd_int: "\<bar>k\<bar> < 2 ^ 53 \<Longrightarrow> rnd (real_of_int k) = Fin (real_of_int k)"
  using rnd_dyadic[of k 0] by simp

lemma rnd_nonneg: "0 \<le> x \<Longrightarrow> dle (Fin 0) (rnd x)"
  using rnd_mono[of 0 x] by simp

lemma rnd_nonpos: "x \<le> 0 \<Longrightarrow> dle (rnd x) (Fin 0)"
  using rnd_mono[of x 0] by simp

lemma rnd_le_1: "x \<le> 1 \<Longrightarrow> dle (rnd x) (Fin 1)"
  using rnd_mono[of x 1] by simp

lemma rnd_exact:
  assumes "\<bar>k\<bar> < 2 ^ 53" "- 1074 \<le> z" "\<bar>real_of_int k * pow2 z\<bar> < pow2 1024"
  shows "rnd (real_of_int k * pow2 z) = Fin (real_of_int k * pow2 z)"
proof (cases "k = 0")
  case True
  then show ?thesis by simp
next
  case False
  define x where "x = real_of_int k * pow2 z"
  have xa: "\<bar>x\<bar> = real_of_int \<bar>k\<bar> * pow2 z" using pow2_pos[of z] by (simp add: x_def abs_mult)
  have x0: "x \<noteq> 0" using False pow2_pos[of z] by (simp add: x_def)
  have "real_of_int \<bar>k\<bar> < real_of_int (2 ^ 53)" using assms(1) by linarith
  then have "\<bar>x\<bar> < 2 ^ 53 * pow2 z" unfolding xa using pow2_pos[of z] by simp
  also have "\<dots> = pow2 (53 + z)" using pow2_add[of 53 z] pow2_nat[of 53] by simp
  finally have lt: "\<bar>x\<bar> < pow2 ((52 + z) + 1)" by (simp add: algebra_simps)
  have "\<lfloor>log 2 \<bar>x\<bar>\<rfloor> \<le> 52 + z" using x0 lt by (intro floor_log2_le) auto
  with assms(2) have e: "expo x \<le> 52 + z" by (simp add: expo_def)
  define d where "d = nat (52 + z - expo x)"
  have d: "int d = 52 + z - expo x" using e by (simp add: d_def)
  have "expo x - 52 = z - int d" using d by simp
  then have "ulp x = pow2 z / pow2 (int d)" by (simp add: ulp_def pow2_diff)
  then have u: "ulp x = pow2 z / 2 ^ d" by (simp add: pow2_nat)
  have "x / ulp x = real_of_int (k * 2 ^ d)" unfolding u using pow2_pos[of z] by (simp add: x_def)
  then have re: "roundEven (x / ulp x) = k * 2 ^ d" by (simp only: roundEven_of_int)
  have "rval x = real_of_int (k * 2 ^ d) * ulp x" by (simp only: rval_def re)
  also have "\<dots> = x" unfolding u by (simp add: x_def)
  finally have rv: "rval x = x" .
  from assms(3) have "\<bar>x\<bar> < pow2 1024" by (simp add: x_def)
  then have "\<not> rval x \<ge> pow2 1024" "\<not> rval x \<le> - pow2 1024"
    unfolding rv by (simp_all add: abs_less_iff)
  with rv x0 have "rnd x = Fin x" by (simp add: rnd_alt)
  then show ?thesis by (simp add: x_def)
qed

lemma isDouble_nat_pow2:
  assumes "m < 2 ^ 32"
  shows "isDouble (real m * 2 ^ 990)"
proof -
  have a: "\<bar>int m\<bar> < 2 ^ 53"
  proof -
    have "int m < 2 ^ 32" using assms by (metis of_nat_less_iff of_nat_numeral of_nat_power)
    also have "(2::int) ^ 32 < 2 ^ 53" by simp
    finally show ?thesis by simp
  qed
  have p: "pow2 990 = 2 ^ 990" using pow2_nat[of 990] by simp
  have "real m * 2 ^ 990 < 2 ^ 32 * 2 ^ 990" using assms by simp
  also have "\<dots> = pow2 1022" using pow2_nat[of 1022] by simp
  also have "\<dots> < pow2 1024" by (rule pow2_strict_mono) simp
  finally have "\<bar>real_of_int (int m) * pow2 990\<bar> < pow2 1024" by (simp add: p)
  from rnd_exact[OF a _ this] show ?thesis by (simp add: isDouble_def p)
qed

lemma rval_err: "\<bar>rval x - x\<bar> \<le> \<bar>x\<bar> / 2 ^ 53 + pow2 (- 1075)"
proof (cases "x = 0")
  case True
  then show ?thesis using pow2_pos[of "- 1075"] by simp
next
  case False
  define q where "q = ulp x"
  have q: "0 < q" by (simp add: q_def ulp_pos)
  have "rval x - x = (real_of_int (roundEven (x / q)) - x / q) * q"
    using q by (simp add: rval_def q_def algebra_simps)
  then have "\<bar>rval x - x\<bar> = \<bar>real_of_int (roundEven (x / q)) - x / q\<bar> * q"
    using q by (simp add: abs_mult)
  also have "\<dots> \<le> 1 / 2 * q" using roundEven_near[of "x / q"] q by (intro mult_right_mono) auto
  finally have b: "\<bar>rval x - x\<bar> \<le> q / 2" by simp
  have h: "q / 2 = pow2 (expo x - 53)"
    using pow2_diff[of "expo x - 52" 1] pow2_nat[of 1] by (simp add: q_def ulp_def)
  show ?thesis
  proof (cases "- 1022 \<le> \<lfloor>log 2 \<bar>x\<bar>\<rfloor>")
    case True
    have "pow2 (expo x - 53) = pow2 (expo x) / 2 ^ 53"
      using pow2_diff[of "expo x" 53] pow2_nat[of 53] by simp
    also have "\<dots> \<le> \<bar>x\<bar> / 2 ^ 53"
      using pow2_expo_le_abs[OF False True] by (simp add: divide_right_mono)
    finally show ?thesis using b h pow2_pos[of "- 1075"] by linarith
  next
    case F2: False
    then have "expo x = - 1022" by (simp add: expo_def)
    then have "q / 2 = pow2 (- 1075)" using h by simp
    with b show ?thesis by (simp add: add_increasing)
  qed
qed

lemma rnd_between:
  assumes "0 \<le> x" "x \<le> y" "isDouble y"
  shows "\<exists>v. rnd x = Fin v \<and> 0 \<le> v \<and> v \<le> y \<and> isDouble v \<and> v = rval x"
proof -
  from rnd_nonneg[OF assms(1)] have a: "dle (Fin 0) (rnd x)" .
  from rnd_mono[OF assms(2)] assms(3) have b: "dle (rnd x) (Fin y)" by (simp add: isDouble_def)
  from a b obtain v where v: "rnd x = Fin v" "0 \<le> v" "v \<le> y" by (cases "rnd x") auto
  from rnd_idem[OF v(1)] rnd_Fin_rval[OF v(1)] v show ?thesis by blast
qed

lemma rval_rel:
  assumes "pow2 (- 1022) \<le> \<bar>x\<bar>"
  shows "\<bar>rval x - x\<bar> \<le> \<bar>x\<bar> / 2 ^ 53"
proof -
  have x0: "x \<noteq> 0" using assms pow2_pos[of "- 1022"] by auto
  have "real_of_int (- 1022) \<le> log 2 \<bar>x\<bar>"
    using assms x0 le_log_iff[of 2 "\<bar>x\<bar>" "real_of_int (- 1022)"] unfolding pow2_def by simp
  then have n: "- 1022 \<le> \<lfloor>log 2 \<bar>x\<bar>\<rfloor>" by (simp add: le_floor_iff)
  define q where "q = ulp x"
  have q: "0 < q" by (simp add: q_def ulp_pos)
  have "rval x - x = (real_of_int (roundEven (x / q)) - x / q) * q"
    using q by (simp add: rval_def q_def algebra_simps)
  then have "\<bar>rval x - x\<bar> = \<bar>real_of_int (roundEven (x / q)) - x / q\<bar> * q"
    using q by (simp add: abs_mult)
  also have "\<dots> \<le> 1 / 2 * q" using roundEven_near[of "x / q"] q by (intro mult_right_mono) auto
  finally have b: "\<bar>rval x - x\<bar> \<le> q / 2" by simp
  have h: "q / 2 = pow2 (expo x - 53)"
    using pow2_diff[of "expo x - 52" 1] pow2_nat[of 1] by (simp add: q_def ulp_def)
  have "pow2 (expo x - 53) = pow2 (expo x) / 2 ^ 53"
    using pow2_diff[of "expo x" 53] pow2_nat[of 53] by simp
  also have "\<dots> \<le> \<bar>x\<bar> / 2 ^ 53"
    using pow2_expo_le_abs[OF x0 n] by (simp add: divide_right_mono)
  finally show ?thesis using b h by linarith
qed

lemma isDouble_pow2:
  assumes "- 1074 \<le> z" "z < 1024"
  shows "isDouble (pow2 z)"
proof -
  have "\<bar>real_of_int 1 * pow2 z\<bar> < pow2 1024"
    using pow2_strict_mono[OF assms(2)] pow2_pos[of z] by simp
  from rnd_exact[of 1 z, OF _ assms(1) this] show ?thesis by (simp add: isDouble_def)
qed

lemma isDouble_nat_pow2':
  assumes "m < 2 ^ 32" "e \<le> 990"
  shows "isDouble (real m * 2 ^ e)"
proof -
  have a: "\<bar>int m\<bar> < 2 ^ 53"
  proof -
    have "int m < 2 ^ 32" using assms(1) by (metis of_nat_less_iff of_nat_numeral of_nat_power)
    also have "(2::int) ^ 32 < 2 ^ 53" by simp
    finally show ?thesis by simp
  qed
  have p: "pow2 (int e) = 2 ^ e" by (rule pow2_nat)
  have "real m * 2 ^ e < 2 ^ 32 * 2 ^ e" using assms(1) by simp
  also have "\<dots> = pow2 (32 + int e)" using pow2_add[of 32 "int e"] pow2_nat[of 32] p by simp
  also have "\<dots> < pow2 1024" using assms(2) by (intro pow2_strict_mono) simp
  finally have "\<bar>real_of_int (int m) * pow2 (int e)\<bar> < pow2 1024" by (simp add: p)
  from rnd_exact[OF a _ this] show ?thesis by (simp add: isDouble_def p)
qed

lemma isDouble_rval: "isDouble x \<Longrightarrow> rval x = x"
  using rnd_Fin_rval[of x x] by (simp add: isDouble_def)

section \<open>Properties of the fill simulator\<close>

lemma keepLevel_pos: "keepLevel r = Some l \<Longrightarrow> 0 < price l \<and> 0 < size_l l"
  by (auto split: number.splits if_splits)

lemma set_map_filter_keepLevel:
  "set (List.map_filter keepLevel rs) = {l. \<exists>r\<in>set rs. keepLevel r = Some l}"
  by (induction rs) (auto split: option.splits)

lemma sortedLevels_pos:
  assumes "l \<in> set (sortedLevels b sd)"
  shows "0 < price l \<and> 0 < size_l l"
proof -
  from assms obtain r where "keepLevel r = Some l"
    by (auto simp: sortedLevels_def Let_def set_map_filter_keepLevel split: if_splits)
  then show ?thesis by (rule keepLevel_pos)
qed

lemma sortedLevels_raw:
  assumes "l \<in> set (sortedLevels b sd)"
  shows "\<exists>r\<in>set (bids b @ asks b). raw_price r = Finite (price l)"
proof -
  from assms obtain r where "r \<in> set (bids b @ asks b)" "keepLevel r = Some l"
    by (auto simp: sortedLevels_def Let_def set_map_filter_keepLevel split: if_splits)
  moreover from this(2) have "raw_price r = Finite (price l)"
    by (auto split: number.splits if_splits)
  ultimately show ?thesis by blast
qed

subsection \<open>Comparisons and special values\<close>

lemma dle_NaN_right [simp]: "dle a NaN = False"
  by (cases a) simp_all

lemma dless_NaN_right [simp]: "dless a NaN = False"
  by (cases a) simp_all

lemma dmin_NaN_right [simp]: "dmin a NaN = NaN"
  by (cases a) simp_all

lemma dadd_NaN_right [simp]: "dadd a NaN = NaN"
  by (cases a) simp_all

lemma ddiv_NaN_right [simp]: "ddiv a NaN = NaN"
  by (cases a) simp_all

lemma dsub_NaN [simp]: "dsub NaN b = NaN" "dsub a NaN = NaN"
  by (simp_all add: dsub_def)

lemma dle_trans: "dle a b \<Longrightarrow> dle b c \<Longrightarrow> dle a c"
  by (cases a; cases b; cases c) auto

lemma dle_Fin0D: "dle (Fin 0) a \<Longrightarrow> a = PosInf \<or> (\<exists>x. a = Fin x \<and> 0 \<le> x)"
  by (cases a) auto

lemma dle_Fin0D': "dle a (Fin 0) \<Longrightarrow> a = NegInf \<or> (\<exists>x. a = Fin x \<and> x \<le> 0)"
  by (cases a) auto

lemma dmin_NegInf: "b \<noteq> NaN \<Longrightarrow> dmin NegInf b = NegInf"
  by (cases b) simp_all

lemma eps9_nonneg: "dle (Fin 0) eps9"
  unfolding eps9_def by (rule rnd_nonneg) simp

lemma eps6_nonneg: "dle (Fin 0) eps6"
  unfolding eps6_def by (rule rnd_nonneg) simp

text \<open>One iteration of the loop.\<close>

lemma fillLoop_step:
  "fillLoop (l # ls) r s c =
     (if dle (dsub r (dmin r (rnd (price l * size_l l)))) eps9
      then (dsub r (dmin r (rnd (price l * size_l l))),
            dadd s (ddiv (dmin r (rnd (price l * size_l l))) (Fin (price l))),
            dadd c (dmin r (rnd (price l * size_l l))))
      else fillLoop ls (dsub r (dmin r (rnd (price l * size_l l))))
             (dadd s (ddiv (dmin r (rnd (price l * size_l l))) (Fin (price l))))
             (dadd c (dmin r (rnd (price l * size_l l)))))"
  by (simp only: fillLoop.simps Let_def)

subsection \<open>A notional that is not a finite positive number\<close>

lemma fillLoop_NaN: "ls \<noteq> [] \<Longrightarrow> fillLoop ls NaN s c = (NaN, NaN, NaN)"
proof (induction ls arbitrary: s c)
  case Nil
  then show ?case by simp
next
  case (Cons l ls)
  show ?case
  proof (cases "ls = []")
    case True
    then show ?thesis by (simp add: fillLoop_step)
  next
    case False
    from Cons.IH[OF False] show ?thesis by (simp add: fillLoop_step)
  qed
qed

lemma marketFill_NaN:
  "sortedLevels b sd \<noteq> [] \<Longrightarrow>
   marketFill b sd NaN = Some \<lparr>avgPrice = NaN, shares = NaN, notional = NaN\<rparr>"
  by (simp add: marketFill_def fillLoop_NaN)

lemma fillLoop_NegInf:
  assumes "0 < price l" "ls \<noteq> []"
  shows "fillLoop (l # ls) NegInf (Fin 0) (Fin 0) = (NaN, NaN, NaN)"
proof -
  have m: "dmin NegInf (rnd (price l * size_l l)) = NegInf" by (rule dmin_NegInf) simp
  have d: "ddiv NegInf (Fin (price l)) = NegInf" using assms(1) by simp
  show ?thesis
    unfolding fillLoop_step m d by (simp add: dsub_def fillLoop_NaN[OF assms(2)])
qed

lemma marketFill_NegInf:
  assumes "sortedLevels b sd = l # l' # ls"
  shows "marketFill b sd NegInf = Some \<lparr>avgPrice = NaN, shares = NaN, notional = NaN\<rparr>"
proof -
  have "l \<in> set (sortedLevels b sd)" using assms by simp
  then have "0 < price l" using sortedLevels_pos by blast
  then have "fillLoop (l # l' # ls) NegInf (Fin 0) (Fin 0) = (NaN, NaN, NaN)"
    by (rule fillLoop_NegInf) simp
  then show ?thesis by (simp add: marketFill_def assms)
qed

lemma fillLoop_nonpositive:
  assumes "r \<le> 0" "dle c (Fin 0)" "\<forall>l\<in>set ls. 0 < price l \<and> 0 < size_l l"
  shows "dle (snd (snd (fillLoop ls (Fin r) s c))) (Fin 0)"
proof (cases ls)
  case Nil
  with assms(2) show ?thesis by simp
next
  case (Cons l rest)
  with assms(3) have "0 \<le> price l * size_l l" by simp
  from rnd_nonneg[OF this, THEN dle_Fin0D] assms(1)
  have m: "dmin (Fin r) (rnd (price l * size_l l)) = Fin r" by auto
  have s: "dsub (Fin r) (Fin r) = Fin 0" by (simp add: dsub_def)
  from assms(2)[THEN dle_Fin0D'] have "dle (dadd c (Fin r)) (Fin 0)"
  proof
    assume "c = NegInf"
    then show ?thesis by simp
  next
    assume "\<exists>x. c = Fin x \<and> x \<le> 0"
    then obtain x where "c = Fin x" "x \<le> 0" by blast
    with assms(1) show ?thesis by (simp add: rnd_nonpos)
  qed
  then show ?thesis unfolding Cons fillLoop_step m s using eps9_nonneg by simp
qed

lemma marketFill_finite_nonpositive:
  assumes "n \<le> 0"
  shows "marketFill b sd (Fin n) = None"
proof -
  obtain r s c where f: "fillLoop (sortedLevels b sd) (Fin n) (Fin 0) (Fin 0) = (r, s, c)"
    by (cases "fillLoop (sortedLevels b sd) (Fin n) (Fin 0) (Fin 0)") auto
  have "dle (snd (snd (fillLoop (sortedLevels b sd) (Fin n) (Fin 0) (Fin 0)))) (Fin 0)"
    using assms sortedLevels_pos by (intro fillLoop_nonpositive) auto
  with f have "dle c (Fin 0)" by simp
  with f show ?thesis by (simp add: marketFill_def)
qed

subsection \<open>Evaluating the rounding\<close>

lemma roundEven_eqI:
  assumes "\<bar>m - real_of_int k\<bar> < 1 / 2"
  shows "roundEven m = k"
proof -
  have "\<bar>real_of_int (roundEven m) - m\<bar> \<le> 1 / 2" by (rule roundEven_near)
  with assms have "\<bar>real_of_int (roundEven m) - real_of_int k\<bar> < 1" by linarith
  then have "\<bar>real_of_int (roundEven m - k)\<bar> < 1" by simp
  then have "\<bar>roundEven m - k\<bar> < 1" by linarith
  then show ?thesis by simp
qed

lemma rnd_eval:
  assumes "2 ^ 52 \<le> \<bar>x\<bar> * 2 ^ j" "\<bar>x\<bar> * 2 ^ j < 2 ^ 53" "j \<le> 1074"
    and "\<bar>x * 2 ^ j - real_of_int k\<bar> < 1 / 2"
  shows "rnd x = Fin (real_of_int k / 2 ^ j)"
  using rnd_scaled[OF assms(1-3)] roundEven_eqI[OF assms(4)] by simp

lemma dless_nonneg: "dle (Fin 0) a \<Longrightarrow> \<not> dless a (Fin 0)"
  by (cases a) auto

lemma roundEven_tie:
  assumes "\<bar>m - real_of_int k\<bar> = 1 / 2" "even k"
  shows "roundEven m = k"
proof (cases "m = real_of_int k + 1 / 2")
  case True
  then have f: "\<lfloor>m\<rfloor> = k" by linarith
  show ?thesis unfolding roundEven_def f Let_def using True assms(2) by simp
next
  case False
  with assms(1) have m: "m = real_of_int k - 1 / 2" by linarith
  then have f: "\<lfloor>m\<rfloor> = k - 1" by linarith
  show ?thesis unfolding roundEven_def f Let_def using m assms(2) by simp
qed

lemma rnd_eval_tie:
  assumes "2 ^ 52 \<le> \<bar>x\<bar> * 2 ^ j" "\<bar>x\<bar> * 2 ^ j < 2 ^ 53" "j \<le> 1074"
    and "\<bar>x * 2 ^ j - real_of_int k\<bar> = 1 / 2" "even k"
  shows "rnd x = Fin (real_of_int k / 2 ^ j)"
  using rnd_scaled[OF assms(1-3)] roundEven_tie[OF assms(4,5)] by simp

lemma rnd_200: "rnd 200 = Fin 200"
  using rnd_int[of 200] by simp

lemma eps9_eval: "eps9 = Fin (4835703278458517 / 2 ^ 82)"
  unfolding eps9_def using rnd_eval[of "1 / 10 ^ 9" 82 4835703278458517] by simp

lemma eps6_eval: "eps6 = Fin (4722366482869645 / 2 ^ 72)"
  unfolding eps6_def using rnd_eval[of "1 / 10 ^ 6" 72 4722366482869645] by simp

subsection \<open>One iteration on a finite, non-negative remainder\<close>

lemma dadd_nonneg: "dle (Fin 0) a \<Longrightarrow> dle (Fin 0) b \<Longrightarrow> dle (Fin 0) (dadd a b)"
  by (cases a; cases b) (auto intro: rnd_nonneg)

lemma dle_PosInf: "a \<noteq> NaN \<Longrightarrow> dle a PosInf"
  by (cases a) auto

lemma dadd_mono:
  assumes "dle a b" "dle x y" "dle (Fin 0) a" "dle (Fin 0) x"
  shows "dle (dadd a x) (dadd b y)"
  using assms by (cases a; cases b; cases x; cases y) (auto intro: rnd_mono dle_PosInf)

text \<open>What is taken from a level: the remainder or the value of the level, a double.\<close>

lemma take_cases:
  assumes "isDouble r" "0 \<le> r" "0 < p" "0 < sz"
  obtains t where "dmin (Fin r) (rnd (p * sz)) = Fin t" "0 \<le> t" "t \<le> r" "isDouble t"
    "t \<le> rval (p * sz)" "t = r \<or> t = rval (p * sz)"
proof -
  have "0 \<le> p * sz" using assms(3,4) by simp
  from rnd_nonneg[OF this, THEN dle_Fin0D]
  show ?thesis
  proof
    assume inf: "rnd (p * sz) = PosInf"
    then have "pow2 1024 \<le> rval (p * sz)" by (auto simp: rnd_def split: if_splits)
    moreover have "r < pow2 1024"
      using assms(1) by (auto simp: isDouble_def rnd_def split: if_splits)
    ultimately have "r \<le> rval (p * sz)" by simp
    with inf assms(1,2) that[of r] show ?thesis by simp
  next
    assume "\<exists>x. rnd (p * sz) = Fin x \<and> 0 \<le> x"
    then obtain x where x: "rnd (p * sz) = Fin x" "0 \<le> x" by blast
    from rnd_idem[OF x(1)] have dx: "isDouble x" .
    from rnd_Fin_rval[OF x(1)] have rx: "x = rval (p * sz)" .
    show ?thesis
    proof (cases "r \<le> x")
      case True
      with x assms(1,2) rx that[of r] show ?thesis by simp
    next
      case False
      with x dx rx that[of x] show ?thesis by simp
    qed
  qed
qed

lemma dsub_Fin: "dsub (Fin r) (Fin t) = rnd (r - t)"
  by (simp add: dsub_def)

subsection \<open>Bounds on a fill of a finite notional\<close>

lemma fillLoop_bounds:
  assumes "\<forall>l\<in>set ls. 0 < price l \<and> 0 < size_l l"
    and "isDouble r" "0 \<le> r" "r \<le> 2 ^ 990"
    and "dle (Fin 0) s" "0 \<le> c" "c \<le> real m * 2 ^ 990" "m + length ls < 2 ^ 32"
  shows "\<exists>r' s' c'. fillLoop ls (Fin r) s (Fin c) = (Fin r', s', Fin c') \<and> 0 \<le> r' \<and>
           dle (Fin 0) s' \<and> 0 \<le> c' \<and>
           ((\<forall>l\<in>set ls. price l \<le> 1) \<longrightarrow> dle (Fin c) s \<longrightarrow> dle (Fin c') s')"
  using assms
proof (induction ls arbitrary: r s c m)
  case Nil
  then show ?case by simp
next
  case (Cons l ls)
  have p: "0 < price l" "0 < size_l l" using Cons.prems(1) by simp_all
  from take_cases[OF Cons.prems(2,3) p]
  obtain t where t: "dmin (Fin r) (rnd (price l * size_l l)) = Fin t" "0 \<le> t" "t \<le> r"
    "isDouble t" by blast
  from rnd_between[of "r - t" r] t Cons.prems(2)
  obtain r1 where r1: "rnd (r - t) = Fin r1" "0 \<le> r1" "r1 \<le> r" "isDouble r1" by auto
  have m1: "Suc m < 2 ^ 32" using Cons.prems(8) by simp
  have "c + t \<le> real (Suc m) * 2 ^ 990"
    using Cons.prems(4,7) t(3) by (simp add: algebra_simps)
  from rnd_between[OF _ this isDouble_nat_pow2[OF m1]] Cons.prems(6) t(2)
  obtain c1 where c1: "rnd (c + t) = Fin c1" "0 \<le> c1" "c1 \<le> real (Suc m) * 2 ^ 990" by auto
  define s1 where "s1 = dadd s (ddiv (Fin t) (Fin (price l)))"
  have dv: "ddiv (Fin t) (Fin (price l)) = rnd (t / price l)" using p(1) by simp
  have dvn: "dle (Fin 0) (rnd (t / price l))" using t(2) p(1) by (intro rnd_nonneg) simp
  have s1n: "dle (Fin 0) s1" unfolding s1_def dv using Cons.prems(5) dvn by (rule dadd_nonneg)
  have le1: "dle (Fin c1) s1" if "price l \<le> 1" "dle (Fin c) s"
  proof -
    have "t \<le> t / price l" using that(1) p(1) t(2) by (simp add: pos_le_divide_eq mult_left_le)
    from rnd_mono[OF this] t(4) have "dle (Fin t) (rnd (t / price l))" by (simp add: isDouble_def)
    from dadd_mono[OF that(2) this] Cons.prems(6) t(2)
    have "dle (dadd (Fin c) (Fin t)) (dadd s (rnd (t / price l)))" by simp
    then show ?thesis unfolding s1_def dv by (simp add: c1(1))
  qed
  have st: "fillLoop (l # ls) (Fin r) s (Fin c) =
     (if dle (Fin r1) eps9 then (Fin r1, s1, Fin c1) else fillLoop ls (Fin r1) s1 (Fin c1))"
    unfolding fillLoop_step t(1) dsub_Fin r1(1) s1_def by (simp add: c1(1))
  show ?case
  proof (cases "dle (Fin r1) eps9")
    case True
    with st r1 s1n c1 le1 show ?thesis by simp
  next
    case False
    have "\<exists>r' s' c'. fillLoop ls (Fin r1) s1 (Fin c1) = (Fin r', s', Fin c') \<and> 0 \<le> r' \<and>
           dle (Fin 0) s' \<and> 0 \<le> c' \<and>
           ((\<forall>l\<in>set ls. price l \<le> 1) \<longrightarrow> dle (Fin c1) s1 \<longrightarrow> dle (Fin c') s')"
      using Cons.prems(1,4,8) r1 s1n c1
      by (intro Cons.IH[where m = "Suc m"]) auto
    with st False le1 show ?thesis by auto
  qed
qed

lemma pricesInUnit_sorted:
  assumes "pricesInUnit b" "l \<in> set (sortedLevels b sd)"
  shows "price l \<le> 1"
proof -
  from sortedLevels_raw[OF assms(2)]
  obtain r where r: "r \<in> set (bids b @ asks b)" "raw_price r = Finite (price l)" by blast
  from assms(1) r(1) have "case raw_price r of Finite p \<Rightarrow> 0 \<le> p \<and> p \<le> 1 | NonFinite \<Rightarrow> True"
    unfolding pricesInUnit_def list_all_iff by blast
  with r(2) show ?thesis by simp
qed

text \<open>
  The signs and the unit bound. The cost stays finite: it is at most the number of levels
  walked times \<open>2\<^sup>9\<^sup>9\<^sup>0\<close>. With prices of at most 1 every rounded step keeps the shares at or
  above the cost, so that the rounded quotient is at most 1.
\<close>

lemma marketFill_sign_bounds:
  assumes "isDouble n" "n \<le> 2 ^ 990" "length (sortedLevels b sd) < 2 ^ 32"
    and "marketFill b sd (Fin n) = Some f"
  shows "dless (Fin 0) (shares f) \<and> dle (Fin 0) (avgPrice f) \<and>
         (pricesInUnit b \<longrightarrow> dle (avgPrice f) (Fin 1))"
proof -
  have n0: "0 < n"
  proof (rule ccontr)
    assume "\<not> 0 < n"
    then have "marketFill b sd (Fin n) = None" by (intro marketFill_finite_nonpositive) simp
    with assms(4) show False by simp
  qed
  have "\<exists>r' s' c'. fillLoop (sortedLevels b sd) (Fin n) (Fin 0) (Fin 0) = (Fin r', s', Fin c') \<and>
           0 \<le> r' \<and> dle (Fin 0) s' \<and> 0 \<le> c' \<and>
           ((\<forall>l\<in>set (sortedLevels b sd). price l \<le> 1) \<longrightarrow> dle (Fin 0) (Fin 0) \<longrightarrow> dle (Fin c') s')"
    using assms(1-3) n0 sortedLevels_pos
    by (intro fillLoop_bounds[where m = 0]) auto
  then obtain r' s' c' where
    fl: "fillLoop (sortedLevels b sd) (Fin n) (Fin 0) (Fin 0) = (Fin r', s', Fin c')"
    and s': "dle (Fin 0) s'" and c': "0 \<le> c'"
    and le: "(\<forall>l\<in>set (sortedLevels b sd). price l \<le> 1) \<Longrightarrow> dle (Fin c') s'"
    by auto
  from assms(4) have g: "\<not> dle (Fin c') (Fin 0)" "\<not> dle s' (Fin 0)"
    and f: "f = \<lparr>avgPrice = ddiv (Fin c') s', shares = s', notional = Fin c'\<rparr>"
    by (auto simp: marketFill_def fl split: if_splits)
  from g(1) have cp: "0 < c'" by simp
  from s'[THEN dle_Fin0D] show ?thesis
  proof
    assume "s' = PosInf"
    then show ?thesis by (simp add: f)
  next
    assume "\<exists>x. s' = Fin x \<and> 0 \<le> x"
    then obtain x where x: "s' = Fin x" "0 \<le> x" by blast
    with g(2) have xp: "0 < x" by simp
    have a: "ddiv (Fin c') s' = rnd (c' / x)" using x xp by simp
    have "dle (Fin 0) (rnd (c' / x))" using cp xp by (intro rnd_nonneg) simp
    moreover have "dle (rnd (c' / x)) (Fin 1)" if "pricesInUnit b"
    proof -
      from le pricesInUnit_sorted[OF that] have "dle (Fin c') s'" by blast
      with x xp have "c' / x \<le> 1" by simp
      then show ?thesis by (rule rnd_le_1)
    qed
    ultimately show ?thesis using x xp by (simp add: f a)
  qed
qed

subsection \<open>The remainder of the walk against the depth of the book\<close>

lemma depthUsd_Cons: "depthUsd (l # ls) = price l * size_l l + depthUsd ls"
  by (simp add: depthUsd_def)

lemma depthUsd_nonneg: "\<forall>l\<in>set ls. 0 < price l \<and> 0 < size_l l \<Longrightarrow> 0 \<le> depthUsd ls"
  by (induction ls) (auto simp: depthUsd_def)

lemma fillLoop_remaining_lower_gen:
  assumes err: "\<And>x. \<bar>rval x - x\<bar> \<le> u * \<bar>x\<bar> + eta" and u: "0 \<le> u" and eta: "0 \<le> eta"
    and "\<forall>l\<in>set ls. 0 < price l \<and> 0 < size_l l" "isDouble r" "0 \<le> r"
  shows "\<exists>r'. fst (fillLoop ls (Fin r) s c) = Fin r' \<and> r' \<le> r \<and>
           r - (1 + u) * depthUsd ls - real (length ls) * (u * r + 2 * eta) \<le> r'"
  using assms(4-)
proof (induction ls arbitrary: r s c)
  case Nil
  then show ?case by (simp add: depthUsd_def)
next
  case (Cons l ls)
  define v where "v = price l * size_l l"
  have p: "0 < price l" "0 < size_l l" using Cons.prems(1) by simp_all
  then have v0: "0 \<le> v" by (simp add: v_def)
  have d0: "0 \<le> depthUsd ls" using Cons.prems(1) by (intro depthUsd_nonneg) simp
  from take_cases[OF Cons.prems(2,3) p]
  obtain t where t: "dmin (Fin r) (rnd (price l * size_l l)) = Fin t" "0 \<le> t" "t \<le> r"
    "isDouble t" "t \<le> rval v" unfolding v_def by blast
  from err[of v] v0 have "rval v \<le> v + u * v + eta" by (simp add: abs_le_iff)
  with t(5) have tv: "t \<le> (1 + u) * v + eta" by (simp add: algebra_simps)
  from rnd_between[of "r - t" r] t Cons.prems(2)
  obtain r1 where r1: "rnd (r - t) = Fin r1" "0 \<le> r1" "r1 \<le> r" "isDouble r1"
    "r1 = rval (r - t)" by auto
  from err[of "r - t"] t(3) have "r - t - (u * (r - t) + eta) \<le> r1"
    unfolding r1(5) by (simp add: abs_le_iff)
  moreover have "u * (r - t) \<le> u * r" using t(2) u by (simp add: mult_left_mono)
  ultimately have lo: "r - (1 + u) * v - (u * r + 2 * eta) \<le> r1"
    using tv by linarith
  have k0: "0 \<le> real (length ls) * (u * r + 2 * eta)"
    using Cons.prems(3) u eta by simp
  have d1: "0 \<le> (1 + u) * depthUsd ls" using u d0 by simp
  have split: "r - (1 + u) * depthUsd (l # ls) - real (length (l # ls)) * (u * r + 2 * eta)
      = (r - (1 + u) * v - (u * r + 2 * eta))
        - (1 + u) * depthUsd ls - real (length ls) * (u * r + 2 * eta)"
    by (simp add: depthUsd_Cons v_def algebra_simps)
  have st: "fst (fillLoop (l # ls) (Fin r) s c) =
     (if dle (Fin r1) eps9 then Fin r1
      else fst (fillLoop ls (Fin r1) (dadd s (ddiv (Fin t) (Fin (price l)))) (dadd c (Fin t))))"
    unfolding fillLoop_step t(1) dsub_Fin r1(1) by simp
  show ?case
  proof (cases "dle (Fin r1) eps9")
    case True
    from lo d1 k0 have "r - (1 + u) * depthUsd (l # ls)
        - real (length (l # ls)) * (u * r + 2 * eta) \<le> r1"
      unfolding split by linarith
    with st r1(3) True show ?thesis by simp
  next
    case False
    from Cons.IH[OF _ r1(4,2), of "dadd s (ddiv (Fin t) (Fin (price l)))" "dadd c (Fin t)"]
      Cons.prems(1)
    obtain r' where r': "fst (fillLoop ls (Fin r1) (dadd s (ddiv (Fin t) (Fin (price l))))
        (dadd c (Fin t))) = Fin r'" "r' \<le> r1"
      "r1 - (1 + u) * depthUsd ls - real (length ls) * (u * r1 + 2 * eta) \<le> r'"
      by auto
    have "u * r1 \<le> u * r" using r1(3) u by (simp add: mult_left_mono)
    then have "real (length ls) * (u * r1 + 2 * eta) \<le> real (length ls) * (u * r + 2 * eta)"
      by (intro mult_left_mono) simp_all
    with r'(3) lo
    have "r - (1 + u) * depthUsd (l # ls) - real (length (l # ls)) * (u * r + 2 * eta) \<le> r'"
      unfolding split by linarith
    with st False r'(1,2) r1(3) show ?thesis by simp
  qed
qed

lemma fillLoop_remaining_lower:
  assumes "\<forall>l\<in>set ls. 0 < price l \<and> 0 < size_l l" "isDouble r" "0 \<le> r"
  shows "\<exists>r'. fst (fillLoop ls (Fin r) s c) = Fin r' \<and> r' \<le> r \<and>
           r - (1 + 1 / 2 ^ 53) * depthUsd ls
             - real (length ls) * (1 / 2 ^ 53 * r + 2 * pow2 (- 1075)) \<le> r'"
proof (rule fillLoop_remaining_lower_gen[OF _ _ _ assms])
  show "\<bar>rval x - x\<bar> \<le> 1 / 2 ^ 53 * \<bar>x\<bar> + pow2 (- 1075)" for x
    using rval_err[of x] by simp
  show "(0::real) \<le> 1 / 2 ^ 53" by simp
  show "0 \<le> pow2 (- 1075)" using pow2_pos[of "- 1075"] by simp
qed

lemma eps6_le: "\<exists>v. eps6 = Fin v \<and> v \<le> 1 / 10 ^ 6"
proof -
  have "(4722366482869645 / 2 ^ 72 :: real) \<le> 1 / 10 ^ 6" by simp
  with eps6_eval show ?thesis by blast
qed

text \<open>
  C4, as the code has it. Let \<open>k\<close> be the number of valid levels of the side walked and \<open>D\<close>
  their depth, the sum of price times size as a real number. For a requested notional \<open>n\<close>
  that is a finite double, \<^verbatim>\<open>marketFill\<close> returns the absent value \<open>None\<close> whenever
  \<open>D (1 + 2\<^sup>-\<^sup>5\<^sup>3) + k (n 2\<^sup>-\<^sup>5\<^sup>3 + 2\<^sup>-\<^sup>1\<^sup>0\<^sup>7\<^sup>4) + 10\<^sup>-\<^sup>6 < n\<close>: the depth is short of the notional
  minus \<open>10\<^sup>-\<^sup>6\<close> by more than the rounding of the walk can make up. Without that margin a
  fill may be returned from a book whose depth is short by more than \<open>10\<^sup>-\<^sup>6\<close>.
\<close>

theorem marketFill_insufficient_depth:
  assumes "isDouble n"
    and "(1 + 1 / 2 ^ 53) * depthUsd (sortedLevels b sd)
           + real (length (sortedLevels b sd)) * (n / 2 ^ 53 + 1 / 2 ^ 1074) + 1 / 10 ^ 6 < n"
  shows "marketFill b sd (Fin n) = None"
proof (cases "0 \<le> n")
  case False
  then show ?thesis by (intro marketFill_finite_nonpositive) simp
next
  case True
  have e: "2 * pow2 (- 1075) = 1 / 2 ^ 1074"
    using pow2_neg_nat[of 1075] by simp
  from fillLoop_remaining_lower[OF _ assms(1) True, of "sortedLevels b sd" "Fin 0" "Fin 0"]
    sortedLevels_pos
  obtain r' where r': "fst (fillLoop (sortedLevels b sd) (Fin n) (Fin 0) (Fin 0)) = Fin r'"
    "n - (1 + 1 / 2 ^ 53) * depthUsd (sortedLevels b sd)
       - real (length (sortedLevels b sd)) * (1 / 2 ^ 53 * n + 2 * pow2 (- 1075)) \<le> r'"
    by blast
  from r'(2) assms(2) have "1 / 10 ^ 6 < r'" unfolding e by (simp add: algebra_simps)
  moreover from eps6_le obtain v where v: "eps6 = Fin v" "v \<le> 1 / 10 ^ 6" by blast
  ultimately have "v < r'" by linarith
  then have "dless eps6 (Fin r')" unfolding v(1) by simp
  with r'(1) show ?thesis
    by (cases "fillLoop (sortedLevels b sd) (Fin n) (Fin 0) (Fin 0)") (simp add: marketFill_def)
qed

theorem marketFill_insufficient_depth_witness:
  "isDouble 200 \<and> depthUsd (sortedLevels shallowBook Buy) = 50 \<and>
   length (sortedLevels shallowBook Buy) = 1 \<and>
   (1 + 1 / 2 ^ 53) * 50 + 1 * (200 / 2 ^ 53 + 1 / 2 ^ 1074) + 1 / 10 ^ 6 < (200 :: real) \<and>
   marketFill shallowBook Buy (Fin 200) = None"
proof -
  have d: "isDouble 200" by (simp add: isDouble_def rnd_200)
  have sl: "sortedLevels shallowBook Buy = [\<lparr>price = 1 / 2, size_l = 100\<rparr>]"
    by (simp add: shallowBook_def sortedLevels_def lvl_def List.map_filter_simps)
  have dp: "depthUsd (sortedLevels shallowBook Buy) = 50" by (simp add: sl depthUsd_def)
  have ln: "length (sortedLevels shallowBook Buy) = 1" by (simp add: sl)
  have c: "(1 + 1 / 2 ^ 53) * 50 + 1 * (200 / 2 ^ 53 + 1 / 2 ^ 1074) + 1 / 10 ^ 6 < (200 :: real)"
    by simp
  then have "(1 + 1 / 2 ^ 53) * depthUsd (sortedLevels shallowBook Buy)
           + real (length (sortedLevels shallowBook Buy)) * (200 / 2 ^ 53 + 1 / 2 ^ 1074)
           + 1 / 10 ^ 6 < 200"
    unfolding dp ln by simp
  from marketFill_insufficient_depth[OF d this] d dp ln c show ?thesis by simp
qed

text \<open>
  The asks 3055.21 at 0.27 and 1274.09 at 0.82 and a notional of 1869.660501. Both levels
  are consumed whole; the remainder computed is \<open>2199023 / 2\<^sup>4\<^sup>1\<close>, just below the double
  \<^verbatim>\<open>1e-6\<close>, and a fill is returned, while the depth of the book and the notional filled are
  short of the notional requested by more than \<open>10\<^sup>-\<^sup>6\<close>.
\<close>

lemma shortBook_levels:
  "sortedLevels shortBook Buy
     = [\<lparr>price = 607985949695017 / 2 ^ 51, size_l = 3359238920297513 / 2 ^ 40\<rparr>,
        \<lparr>price = 7385903388887613 / 2 ^ 53, size_l = 5603507079332495 / 2 ^ 42\<rparr>]"
  by (simp add: shortBook_def sortedLevels_def lvl_def List.map_filter_simps)

lemma shortBook_fill:
  "marketFill shortBook Buy (Fin shortNotional) =
     Some \<lparr>avgPrice = Fin (3889867799001841 / 2 ^ 53), shares = Fin (4760115690130637 / 2 ^ 40),
           notional = Fin (1027856729871745 / 2 ^ 39)\<rparr>"
proof -
  have r1: "rnd ((607985949695017 / 2 ^ 51) * (3359238920297513 / 2 ^ 40)) = Fin (7255956067842629 / 2 ^ 43)"
    using rnd_eval[of "(607985949695017 / 2 ^ 51) * (3359238920297513 / 2 ^ 40)" 43 "7255956067842629"] by simp
  have r2: "rnd ((7255956067842629 / 2 ^ 43) / (607985949695017 / 2 ^ 51)) = Fin (6718477840595026 / 2 ^ 41)"
    using rnd_eval[of "(7255956067842629 / 2 ^ 43) / (607985949695017 / 2 ^ 51)" 41 "6718477840595026"] by simp
  have r3: "rnd (0 + (3359238920297513 / 2 ^ 40)) = Fin (6718477840595026 / 2 ^ 41)"
    using rnd_eval[of "0 + (3359238920297513 / 2 ^ 40)" 41 "6718477840595026"] by simp
  have r4: "rnd (0 + (7255956067842629 / 2 ^ 43)) = Fin (7255956067842629 / 2 ^ 43)"
    using rnd_eval[of "0 + (7255956067842629 / 2 ^ 43)" 43 "7255956067842629"] by simp
  have r5: "rnd ((8222853843372007 / 2 ^ 42) + - (7255956067842629 / 2 ^ 43)) = Fin (4594875809450692 / 2 ^ 42)"
    using rnd_eval_tie[of "(8222853843372007 / 2 ^ 42) + - (7255956067842629 / 2 ^ 43)" 42 "4594875809450692"] by simp
  have r6: "rnd ((7385903388887613 / 2 ^ 53) * (5603507079332495 / 2 ^ 42)) = Fin (4594875805052646 / 2 ^ 42)"
    using rnd_eval[of "(7385903388887613 / 2 ^ 53) * (5603507079332495 / 2 ^ 42)" 42 "4594875805052646"] by simp
  have r7: "rnd ((2297437902526323 / 2 ^ 41) / (7385903388887613 / 2 ^ 53)) = Fin (5603507079332495 / 2 ^ 42)"
    using rnd_eval[of "(2297437902526323 / 2 ^ 41) / (7385903388887613 / 2 ^ 53)" 42 "5603507079332495"] by simp
  have r8: "rnd ((3359238920297513 / 2 ^ 40) + (5603507079332495 / 2 ^ 42)) = Fin (4760115690130637 / 2 ^ 40)"
    using rnd_eval[of "(3359238920297513 / 2 ^ 40) + (5603507079332495 / 2 ^ 42)" 40 "4760115690130637"] by simp
  have r9: "rnd ((7255956067842629 / 2 ^ 43) + (2297437902526323 / 2 ^ 41)) = Fin (8222853838973960 / 2 ^ 42)"
    using rnd_eval_tie[of "(7255956067842629 / 2 ^ 43) + (2297437902526323 / 2 ^ 41)" 42 "8222853838973960"] by simp
  have r10: "rnd ((1148718952362673 / 2 ^ 40) + - (2297437902526323 / 2 ^ 41)) = Fin (4722365934075904 / 2 ^ 72)"
    using rnd_eval[of "(1148718952362673 / 2 ^ 40) + - (2297437902526323 / 2 ^ 41)" 72 "4722365934075904"] by simp
  have r11: "rnd ((1027856729871745 / 2 ^ 39) / (4760115690130637 / 2 ^ 40)) = Fin (7779735598003682 / 2 ^ 54)"
    using rnd_eval[of "(1027856729871745 / 2 ^ 39) / (4760115690130637 / 2 ^ 40)" 54 "7779735598003682"] by simp
  have loop: "fillLoop [\<lparr>price = 607985949695017 / 2 ^ 51, size_l = 3359238920297513 / 2 ^ 40\<rparr>,
                 \<lparr>price = 7385903388887613 / 2 ^ 53, size_l = 5603507079332495 / 2 ^ 42\<rparr>]
                (Fin (8222853843372007 / 2 ^ 42)) (Fin 0) (Fin 0)
     = (Fin (2199023 / 2 ^ 41), Fin (4760115690130637 / 2 ^ 40), Fin (1027856729871745 / 2 ^ 39))"
    using r1 r2 r3 r4 r5 r6 r7 r8 r9 r10 by (simp add: fillLoop_step dsub_def eps9_eval)
  show ?thesis
    unfolding marketFill_def shortBook_levels shortNotional_def loop
    using r11 by (simp add: eps6_eval)
qed

theorem marketFill_fills_short_book:
  "marketFill shortBook Buy (Fin shortNotional) =
     Some \<lparr>avgPrice = Fin (3889867799001841 / 2 ^ 53), shares = Fin (4760115690130637 / 2 ^ 40),
           notional = Fin (1027856729871745 / 2 ^ 39)\<rparr> \<and>
   isDouble shortNotional \<and>
   depthUsd (sortedLevels shortBook Buy) < shortNotional - 1 / 10 ^ 6 \<and>
   1027856729871745 / 2 ^ 39 < shortNotional - 1 / 10 ^ 6"
proof -
  have d: "isDouble shortNotional"
    using rnd_dyadic[of 8222853843372007 42] by (simp add: isDouble_def shortNotional_def)
  have dp: "depthUsd (sortedLevels shortBook Buy) < shortNotional - 1 / 10 ^ 6"
    by (simp add: shortBook_levels depthUsd_def shortNotional_def)
  have c: "1027856729871745 / 2 ^ 39 < shortNotional - 1 / 10 ^ 6"
    by (simp add: shortNotional_def)
  from shortBook_fill d dp c show ?thesis by simp
qed

subsection \<open>The average price against the prices consumed\<close>

text \<open>
  The invariant of the walk under rounding, with \<open>a = 1 + 2\<^sup>-\<^sup>5\<^sup>3\<close> and \<open>b = 1 - 2\<^sup>-\<^sup>5\<^sup>3\<close>: after
  \<open>m\<close> levels with prices between \<open>lo\<close> and \<open>hi\<close>, \<open>cost b\<^sup>m\<^sup>+\<^sup>1 \<le> hi a\<^sup>m shares\<close> and
  \<open>lo b\<^sup>m shares \<le> cost a\<^sup>m\<^sup>+\<^sup>1\<close>.
\<close>

lemma ratio_step_upper:
  fixes a b :: real
  assumes ab: "0 < b" "b \<le> 1" "1 \<le> a"
    and U: "c * b ^ Suc m \<le> hi * a ^ m * s"
    and r: "c1 \<le> a * (c + t)" "b * (s + v) \<le> s1" "b * t \<le> hi * v"
    and nn: "0 \<le> t" "0 \<le> hi"
  shows "c1 * b ^ Suc (Suc m) \<le> hi * a ^ Suc m * s1"
proof -
  define A where "A = a ^ m"
  define B where "B = b ^ m"
  have A: "1 \<le> A" unfolding A_def using ab(3) by (rule one_le_power)
  have B: "0 \<le> B" "B \<le> 1" unfolding B_def using ab by (simp_all add: power_le_one)
  have a0: "0 \<le> a" using ab(3) by simp
  have U': "c * (b * B) \<le> hi * A * s" using U by (simp add: A_def B_def)
  have "c1 * (b * b * B) \<le> a * (c + t) * (b * b * B)"
    using r(1) ab(1) B(1) by (intro mult_right_mono) simp_all
  also have "\<dots> = a * b * (c * (b * B)) + a * b * b * t * B" by (simp add: algebra_simps)
  also have "\<dots> \<le> a * b * (hi * A * s) + a * b * b * t * A"
  proof (rule add_mono)
    show "a * b * (c * (b * B)) \<le> a * b * (hi * A * s)"
      using U' a0 ab(1) by (intro mult_left_mono) simp_all
    have "B \<le> A" using A B(2) by simp
    then show "a * b * b * t * B \<le> a * b * b * t * A"
      using a0 ab(1) nn(1) by (intro mult_left_mono) simp_all
  qed
  also have "\<dots> = a * b * (hi * A * s) + a * A * b * (b * t)" by (simp add: algebra_simps)
  also have "\<dots> \<le> a * b * (hi * A * s) + a * A * b * (hi * v)"
    using r(3) a0 A ab(1) by (intro add_left_mono mult_left_mono) simp_all
  also have "\<dots> = hi * (a * A) * (b * (s + v))" by (simp add: algebra_simps)
  also have "\<dots> \<le> hi * (a * A) * s1"
    using r(2) nn(2) a0 A by (intro mult_left_mono) simp_all
  finally show ?thesis by (simp add: A_def B_def mult.assoc)
qed

lemma ratio_step_lower:
  fixes a b :: real
  assumes ab: "0 < b" "b \<le> 1" "1 \<le> a"
    and L: "lo * b ^ m * s \<le> c * a ^ Suc m"
    and r: "b * (c + t) \<le> c1" "s1 \<le> a * (s + v)" "lo * v \<le> a * t"
    and nn: "0 \<le> t" "0 \<le> lo"
  shows "lo * b ^ Suc m * s1 \<le> c1 * a ^ Suc (Suc m)"
proof -
  define A where "A = a ^ m"
  define B where "B = b ^ m"
  have A: "1 \<le> A" unfolding A_def using ab(3) by (rule one_le_power)
  have B: "0 \<le> B" "B \<le> 1" unfolding B_def using ab by (simp_all add: power_le_one)
  have a0: "0 \<le> a" using ab(3) by simp
  have L': "lo * B * s \<le> c * (a * A)" using L by (simp add: A_def B_def)
  have "lo * (b * B) * s1 \<le> lo * (b * B) * (a * (s + v))"
    using r(2) nn(2) ab(1) B(1) by (intro mult_left_mono) simp_all
  also have "\<dots> = a * b * (lo * B * s) + a * b * B * (lo * v)" by (simp add: algebra_simps)
  also have "\<dots> \<le> a * b * (c * (a * A)) + a * b * B * (a * t)"
  proof (rule add_mono)
    show "a * b * (lo * B * s) \<le> a * b * (c * (a * A))"
      using L' a0 ab(1) by (intro mult_left_mono) simp_all
    show "a * b * B * (lo * v) \<le> a * b * B * (a * t)"
      using r(3) a0 ab(1) B(1) by (intro mult_left_mono) simp_all
  qed
  also have "\<dots> = a * b * (c * (a * A)) + a * b * a * t * B" by (simp add: algebra_simps)
  also have "\<dots> \<le> a * b * (c * (a * A)) + a * b * a * t * A"
  proof -
    have "B \<le> A" using A B(2) by simp
    then have "a * b * a * t * B \<le> a * b * a * t * A"
      using a0 ab(1) nn(1) by (intro mult_left_mono) simp_all
    then show ?thesis by simp
  qed
  also have "\<dots> = a * a * A * (b * (c + t))" by (simp add: algebra_simps)
  also have "\<dots> \<le> a * a * A * c1"
    using r(1) a0 A by (intro mult_left_mono) simp_all
  finally show ?thesis by (simp add: A_def B_def mult.assoc mult.commute)
qed

text \<open>
  One iteration in the normal range: \<open>\<tau>\<close> bounds the notional, the prices and the value of a
  level from below, \<open>T\<close> bounds the notional and the prices from above, and a rounding
  of a number of at least \<open>\<nu>\<close> has a relative error of at most \<open>a - 1\<close>, \<open>1 - b\<close>.
\<close>

lemma fill_step_facts:
  fixes a b \<tau> T \<nu> :: real
  assumes ab: "0 < b" "b \<le> 1" "1 \<le> a"
    and rel: "\<And>x. \<nu> \<le> x \<Longrightarrow> b * x \<le> rval x \<and> rval x \<le> a * x"
    and th: "0 < \<tau>" "1 \<le> T" "\<nu> \<le> \<tau> / T"
    and dbl: "isDouble \<tau>" "isDouble (\<tau> / T)" "\<And>k. k < 2 ^ 32 \<Longrightarrow> isDouble (real k * T)"
      "\<And>k. k < 2 ^ 32 \<Longrightarrow> isDouble (real k * (T / \<tau>))"
    and lv: "\<tau> \<le> p" "p \<le> T" "\<tau> \<le> p * sz" "0 < sz"
    and r: "isDouble r" "\<tau> \<le> r" "r \<le> T"
    and s: "isDouble s" "0 \<le> s" "s \<le> real m * (T / \<tau>)"
    and c: "isDouble c" "0 \<le> c" "c \<le> real m * T"
    and m: "Suc m < 2 ^ 32"
  obtains t v r1 s1 c1 where
    "dmin (Fin r) (rnd (p * sz)) = Fin t" "0 \<le> t"
    "ddiv (Fin t) (Fin p) = Fin v" "b * (t / p) \<le> v" "v \<le> a * (t / p)"
    "dsub (Fin r) (Fin t) = Fin r1" "isDouble r1" "0 \<le> r1" "r1 \<le> r"
    "dadd (Fin s) (Fin v) = Fin s1" "isDouble s1" "\<tau> / T \<le> s1" "s1 \<le> real (Suc m) * (T / \<tau>)"
    "b * (s + v) \<le> s1" "s1 \<le> a * (s + v)"
    "dadd (Fin c) (Fin t) = Fin c1" "isDouble c1" "\<tau> \<le> c1" "c1 \<le> real (Suc m) * T"
    "b * (c + t) \<le> c1" "c1 \<le> a * (c + t)"
proof -
  have p0: "0 < p" using th(1) lv(1) by simp
  have T0: "0 < T" using th(2) by simp
  have r0: "0 \<le> r" using th(1) r(2) by simp
  have tT: "\<tau> / T \<le> \<tau>" using th(1,2) by (simp add: divide_le_eq mult_left_le)
  have nu_tau: "\<nu> \<le> \<tau>" using th(3) tT by simp
  from take_cases[OF r(1) r0 p0 lv(4)]
  obtain t where t: "dmin (Fin r) (rnd (p * sz)) = Fin t" "0 \<le> t" "t \<le> r" "isDouble t"
    "t = r \<or> t = rval (p * sz)" by blast
  have "\<tau> \<le> rval (p * sz)" using rval_mono[OF lv(3)] isDouble_rval[OF dbl(1)] by simp
  with t(5) r(2) have tl: "\<tau> \<le> t" by auto
  have tu: "t \<le> T" using t(3) r(3) by simp
  \<comment> \<open>the shares taken\<close>
  define q where "q = t / p"
  have ql: "\<tau> / T \<le> q" unfolding q_def using tl lv(2) p0 th(1) by (intro frac_le) simp_all
  have qu: "q \<le> T / \<tau>" unfolding q_def using tu lv(1) th(1) t(2) by (intro frac_le) simp_all
  have q0: "0 \<le> q" using t(2) p0 by (simp add: q_def)
  have d1: "isDouble (T / \<tau>)" using dbl(4)[of 1] by simp
  from rnd_between[OF q0 qu d1]
  obtain v where v: "rnd q = Fin v" "isDouble v" "v = rval q" "v \<le> T / \<tau>" by blast
  have dv: "ddiv (Fin t) (Fin p) = Fin v" using p0 v(1) by (simp add: q_def)
  have vrel: "b * q \<le> v" "v \<le> a * q" using rel[of q] th(3) ql unfolding v(3) by simp_all
  have vl: "\<tau> / T \<le> v" using rval_mono[OF ql] isDouble_rval[OF dbl(2)] unfolding v(3) by simp
  have "0 < \<tau> / T" using th(1) T0 by simp
  with vl have v0: "0 \<le> v" by linarith
  \<comment> \<open>the remainder\<close>
  from rnd_between[of "r - t" r] t(2,3) r(1)
  obtain r1 where r1: "rnd (r - t) = Fin r1" "isDouble r1" "0 \<le> r1" "r1 \<le> r" by auto
  \<comment> \<open>the shares\<close>
  have m1: "isDouble (real (Suc m) * (T / \<tau>))" using dbl(4)[OF m] .
  have su: "s + v \<le> real (Suc m) * (T / \<tau>)" using s(3) v(4) by (simp add: algebra_simps)
  from rnd_between[OF _ su m1] s(2) v0
  obtain s1 where s1: "rnd (s + v) = Fin s1" "isDouble s1" "s1 = rval (s + v)"
    "s1 \<le> real (Suc m) * (T / \<tau>)" by auto
  have "v \<le> s + v" using s(2) by simp
  from rval_mono[OF this] have "v \<le> s1" unfolding s1(3) using isDouble_rval[OF v(2)] by simp
  with vl have s1l: "\<tau> / T \<le> s1" by simp
  have "\<nu> \<le> s + v" using th(3) vl s(2) by simp
  from rel[OF this] have srel: "b * (s + v) \<le> s1" "s1 \<le> a * (s + v)" unfolding s1(3) by simp_all
  \<comment> \<open>the cost\<close>
  have m2: "isDouble (real (Suc m) * T)" using dbl(3)[OF m] .
  have cu: "c + t \<le> real (Suc m) * T" using c(3) tu by (simp add: algebra_simps)
  from rnd_between[OF _ cu m2] c(2) t(2)
  obtain c1 where c1: "rnd (c + t) = Fin c1" "isDouble c1" "c1 = rval (c + t)"
    "c1 \<le> real (Suc m) * T" by auto
  have "t \<le> c + t" using c(2) by simp
  from rval_mono[OF this] have "t \<le> c1" unfolding c1(3) using isDouble_rval[OF t(4)] by simp
  with tl have c1l: "\<tau> \<le> c1" by simp
  have "\<nu> \<le> c + t" using nu_tau tl c(2) by simp
  from rel[OF this] have crel: "b * (c + t) \<le> c1" "c1 \<le> a * (c + t)" unfolding c1(3) by simp_all
  show ?thesis
    using that[OF t(1,2) dv vrel[unfolded q_def] _ r1(2,3,4) _ s1(2) s1l s1(4) srel _ c1(2) c1l
        c1(4) crel]
    by (simp add: dsub_Fin r1(1) s1(1) c1(1))
qed

lemma consumedLevels_step:
  "consumedLevels (l # ls) r =
     (if dle (dsub r (dmin r (rnd (price l * size_l l)))) eps9 then [l]
      else l # consumedLevels ls (dsub r (dmin r (rnd (price l * size_l l)))))"
  by (simp only: consumedLevels.simps Let_def)

lemma consumedLevels_subset: "set (consumedLevels ls r) \<subseteq> set ls"
  by (induction ls arbitrary: r) (auto simp: Let_def)

lemma consumedLevels_length: "length (consumedLevels ls r) \<le> length ls"
  by (induction ls arbitrary: r) (auto simp: Let_def)

lemma consumedLevels_nonempty: "ls \<noteq> [] \<Longrightarrow> consumedLevels ls r \<noteq> []"
  by (cases ls) (auto simp: Let_def)

lemma fillLoop_ratio:
  fixes a b \<tau> T \<nu> :: real
  assumes ab: "0 < b" "b \<le> 1" "1 \<le> a"
    and rel: "\<And>x. \<nu> \<le> x \<Longrightarrow> b * x \<le> rval x \<and> rval x \<le> a * x"
    and th: "0 < \<tau>" "1 \<le> T" "\<nu> \<le> \<tau> / T"
    and dbl: "isDouble \<tau>" "isDouble (\<tau> / T)" "\<And>k. k < 2 ^ 32 \<Longrightarrow> isDouble (real k * T)"
      "\<And>k. k < 2 ^ 32 \<Longrightarrow> isDouble (real k * (T / \<tau>))"
    and e9: "eps9 = Fin v9" "\<tau> \<le> v9"
    and lh: "0 \<le> lo" "0 \<le> hi"
    and ne: "ls \<noteq> []"
    and lv: "\<forall>l\<in>set ls. \<tau> \<le> price l \<and> price l \<le> T \<and> \<tau> \<le> price l * size_l l \<and> 0 < size_l l"
    and cs: "\<forall>l\<in>set (consumedLevels ls (Fin r)). lo \<le> price l \<and> price l \<le> hi"
    and r: "isDouble r" "\<tau> \<le> r" "r \<le> T"
    and s: "isDouble s" "0 \<le> s" "s \<le> real m * (T / \<tau>)"
    and c: "isDouble c" "0 \<le> c" "c \<le> real m * T"
    and U: "c * b ^ Suc m \<le> hi * a ^ m * s"
    and L: "lo * b ^ m * s \<le> c * a ^ Suc m"
    and m: "m + length ls < 2 ^ 32"
  shows "\<exists>r' s' c'. fillLoop ls (Fin r) (Fin s) (Fin c) = (Fin r', Fin s', Fin c') \<and>
           \<tau> / T \<le> s' \<and> s' \<le> real (m + length (consumedLevels ls (Fin r))) * (T / \<tau>) \<and>
           \<tau> \<le> c' \<and> c' \<le> real (m + length (consumedLevels ls (Fin r))) * T \<and>
           c' * b ^ Suc (m + length (consumedLevels ls (Fin r)))
             \<le> hi * a ^ (m + length (consumedLevels ls (Fin r))) * s' \<and>
           lo * b ^ (m + length (consumedLevels ls (Fin r))) * s'
             \<le> c' * a ^ Suc (m + length (consumedLevels ls (Fin r)))"
  using ne lv cs r s c U L m
proof (induction ls arbitrary: r s c m)
  case Nil
  then show ?case by simp
next
  case (Cons l ls)
  have lvl: "\<tau> \<le> price l" "price l \<le> T" "\<tau> \<le> price l * size_l l" "0 < size_l l"
    using Cons.prems(2) by simp_all
  have inl: "l \<in> set (consumedLevels (l # ls) (Fin r))" by (simp add: Let_def)
  with Cons.prems(3) have pl: "lo \<le> price l" "price l \<le> hi" by blast+
  have p0: "0 < price l" using th(1) lvl(1) by simp
  have m1: "Suc m < 2 ^ 32" using Cons.prems(15) by simp
  from fill_step_facts[OF ab rel th dbl lvl Cons.prems(4-12) m1]
  obtain t v r1 s1 c1 where f:
    "dmin (Fin r) (rnd (price l * size_l l)) = Fin t" "0 \<le> t"
    "ddiv (Fin t) (Fin (price l)) = Fin v" "b * (t / price l) \<le> v" "v \<le> a * (t / price l)"
    "dsub (Fin r) (Fin t) = Fin r1" "isDouble r1" "0 \<le> r1" "r1 \<le> r"
    "dadd (Fin s) (Fin v) = Fin s1" "isDouble s1" "\<tau> / T \<le> s1" "s1 \<le> real (Suc m) * (T / \<tau>)"
    "b * (s + v) \<le> s1" "s1 \<le> a * (s + v)"
    "dadd (Fin c) (Fin t) = Fin c1" "isDouble c1" "\<tau> \<le> c1" "c1 \<le> real (Suc m) * T"
    "b * (c + t) \<le> c1" "c1 \<le> a * (c + t)"
    by blast
  have T0: "0 < T" using th(2) by simp
  have s10: "0 \<le> s1"
  proof -
    have "0 < \<tau> / T" using th(1) T0 by simp
    with f(12) show ?thesis by linarith
  qed
  have c10: "0 \<le> c1" using f(18) th(1) by simp
  have hv: "b * t \<le> hi * v"
  proof -
    have "b * t = price l * (b * (t / price l))" using p0 by simp
    also have "\<dots> \<le> price l * v" using f(4) p0 by (intro mult_left_mono) simp_all
    also have "\<dots> \<le> hi * v"
    proof -
      have "0 \<le> b * (t / price l)" using ab(1) f(2) p0 by simp
      with f(4) have "0 \<le> v" by linarith
      with pl(2) show ?thesis by (intro mult_right_mono)
    qed
    finally show ?thesis .
  qed
  have lov: "lo * v \<le> a * t"
  proof -
    have "lo * v \<le> lo * (a * (t / price l))" using f(5) lh(1) by (intro mult_left_mono)
    also have "\<dots> \<le> price l * (a * (t / price l))"
      using pl(1) ab(3) f(2) p0 by (intro mult_right_mono) simp_all
    also have "\<dots> = a * t" using p0 by simp
    finally show ?thesis .
  qed
  from ratio_step_upper[OF ab Cons.prems(13) f(21) f(14) hv f(2) lh(2)]
  have U1: "c1 * b ^ Suc (Suc m) \<le> hi * a ^ Suc m * s1" .
  from ratio_step_lower[OF ab Cons.prems(14) f(20) f(15) lov f(2) lh(1)]
  have L1: "lo * b ^ Suc m * s1 \<le> c1 * a ^ Suc (Suc m)" .
  have st: "fillLoop (l # ls) (Fin r) (Fin s) (Fin c) =
     (if dle (Fin r1) eps9 then (Fin r1, Fin s1, Fin c1) else fillLoop ls (Fin r1) (Fin s1) (Fin c1))"
    unfolding fillLoop_step f(1) f(3) f(6) f(10) f(16) by simp
  have cst: "consumedLevels (l # ls) (Fin r) =
     (if dle (Fin r1) eps9 then [l] else l # consumedLevels ls (Fin r1))"
    unfolding consumedLevels_step f(1) f(6) by simp
  show ?case
  proof (cases "dle (Fin r1) eps9 \<or> ls = []")
    case True
    then have "fillLoop (l # ls) (Fin r) (Fin s) (Fin c) = (Fin r1, Fin s1, Fin c1)"
      and "length (consumedLevels (l # ls) (Fin r)) = 1"
      using st cst by auto
    with f(12,13,18,19) U1 L1 show ?thesis by simp
  next
    case False
    then have nb: "\<not> dle (Fin r1) eps9" and ne': "ls \<noteq> []" by simp_all
    from nb have "v9 < r1" unfolding e9(1) by simp
    with e9(2) have "\<tau> \<le> r1" by simp
    moreover have "r1 \<le> T" using f(9) Cons.prems(6) by simp
    moreover have "\<forall>l\<in>set (consumedLevels ls (Fin r1)). lo \<le> price l \<and> price l \<le> hi"
      using Cons.prems(3) nb unfolding cst by simp
    moreover have "\<forall>l\<in>set ls. \<tau> \<le> price l \<and> price l \<le> T \<and> \<tau> \<le> price l * size_l l \<and> 0 < size_l l"
      using Cons.prems(2) by simp
    moreover have "Suc m + length ls < 2 ^ 32" using Cons.prems(15) by simp
    ultimately
    have "\<exists>r' s' c'. fillLoop ls (Fin r1) (Fin s1) (Fin c1) = (Fin r', Fin s', Fin c') \<and>
           \<tau> / T \<le> s' \<and> s' \<le> real (Suc m + length (consumedLevels ls (Fin r1))) * (T / \<tau>) \<and>
           \<tau> \<le> c' \<and> c' \<le> real (Suc m + length (consumedLevels ls (Fin r1))) * T \<and>
           c' * b ^ Suc (Suc m + length (consumedLevels ls (Fin r1)))
             \<le> hi * a ^ (Suc m + length (consumedLevels ls (Fin r1))) * s' \<and>
           lo * b ^ (Suc m + length (consumedLevels ls (Fin r1))) * s'
             \<le> c' * a ^ Suc (Suc m + length (consumedLevels ls (Fin r1)))"
      using ne' f(7) f(11) s10 f(13) f(17) c10 f(19) U1 L1
      by (intro Cons.IH) 
    moreover have "length (consumedLevels (l # ls) (Fin r)) = Suc (length (consumedLevels ls (Fin r1)))"
      using cst nb by simp
    moreover have "fillLoop (l # ls) (Fin r) (Fin s) (Fin c) = fillLoop ls (Fin r1) (Fin s1) (Fin c1)"
      using st nb by simp
    ultimately show ?thesis by simp
  qed
qed

lemma ratio_final_upper:
  fixes a b :: real
  assumes "0 < b" "0 < a" "0 < s" "c * b ^ Suc k \<le> hi * a ^ k * s" "p \<le> a * (c / s)"
  shows "p \<le> hi * (a / b) ^ Suc k"
proof -
  have bk: "0 < b ^ Suc k" using assms(1) by simp
  from assms(4) have "c \<le> hi * a ^ k * s / b ^ Suc k" using bk by (simp add: pos_le_divide_eq)
  from divide_right_mono[OF this, of s] assms(3)
  have "c / s \<le> hi * a ^ k / b ^ Suc k" by simp
  then have "a * (c / s) \<le> a * (hi * a ^ k / b ^ Suc k)"
    using assms(2) by (intro mult_left_mono) simp_all
  also have "\<dots> = hi * (a / b) ^ Suc k" by (simp add: power_divide)
  finally show ?thesis using assms(5) by simp
qed

lemma ratio_final_lower:
  fixes a b :: real
  assumes "0 < b" "0 < a" "0 < s" "lo * b ^ k * s \<le> c * a ^ Suc k" "b * (c / s) \<le> p"
  shows "lo * (b / a) ^ Suc k \<le> p"
proof -
  have ak: "0 < a ^ Suc k" using assms(2) by simp
  from assms(4) have "lo * b ^ k * s / a ^ Suc k \<le> c" using ak by (simp add: pos_divide_le_eq)
  from divide_right_mono[OF this, of s] assms(3)
  have "lo * b ^ k / a ^ Suc k \<le> c / s" by simp
  then have "b * (lo * b ^ k / a ^ Suc k) \<le> b * (c / s)"
    using assms(1) by (intro mult_left_mono) simp_all
  moreover have "b * (lo * b ^ k / a ^ Suc k) = lo * (b / a) ^ Suc k" by (simp add: power_divide)
  ultimately show ?thesis using assms(5) by simp
qed

lemma rval_rel_bounds:
  assumes "pow2 (- 1022) \<le> x"
  shows "(1 - 1 / 2 ^ 53) * x \<le> rval x \<and> rval x \<le> (1 + 1 / 2 ^ 53) * x"
proof -
  define d where "d = x / 2 ^ 53"
  have x: "0 < x" using assms pow2_pos[of "- 1022"] by linarith
  then have "pow2 (- 1022) \<le> \<bar>x\<bar>" using assms by simp
  from rval_rel[OF this] x have e: "\<bar>rval x - x\<bar> \<le> d" by (simp add: d_def)
  have "(1 - 1 / 2 ^ 53) * x = x - d" "(1 + 1 / 2 ^ 53) * x = x + d"
    by (simp_all add: d_def algebra_simps)
  with e show ?thesis by (auto simp: abs_le_iff)
qed

lemma pow2_neg_100: "(1 :: real) / 2 ^ 100 = pow2 (- 100)"
  using pow2_neg_nat[of 100] by simp

lemma pow2_neg_200: "(1 :: real) / 2 ^ 200 = pow2 (- 200)"
  using pow2_neg_nat[of 200] by simp

text \<open>
  The range of the average price, up to rounding: in the normal range the average price of
  a fill lies between the smallest price consumed divided by the rounding factor and the
  largest price consumed times the rounding factor.
\<close>

lemma marketFill_range:
  assumes n: "isDouble n" and nr: "normalRange (sortedLevels b sd) n"
    and len: "length (sortedLevels b sd) < 2 ^ 32"
    and fl: "marketFill b sd (Fin n) = Some f"
  shows "\<exists>p. avgPrice f = Fin p \<and>
           Min (price ` set (consumedLevels (sortedLevels b sd) (Fin n)))
             / roundingFactor (length (consumedLevels (sortedLevels b sd) (Fin n))) \<le> p \<and>
           p \<le> Max (price ` set (consumedLevels (sortedLevels b sd) (Fin n)))
             * roundingFactor (length (consumedLevels (sortedLevels b sd) (Fin n)))"
proof -
  define ls where "ls = sortedLevels b sd"
  define cs where "cs = consumedLevels ls (Fin n)"
  define k where "k = length cs"
  define a :: real where "a = 1 + 1 / 2 ^ 53"
  define b' :: real where "b' = 1 - 1 / 2 ^ 53"
  define \<tau> :: real where "\<tau> = 1 / 2 ^ 100"
  define T :: real where "T = 2 ^ 100"
  define lo where "lo = Min (price ` set cs)"
  define hi where "hi = Max (price ` set cs)"
  have ab: "0 < b'" "b' \<le> 1" "1 \<le> a" by (simp_all add: a_def b'_def)
  have rel: "\<And>x. pow2 (- 1022) \<le> x \<Longrightarrow> b' * x \<le> rval x \<and> rval x \<le> a * x"
    unfolding a_def b'_def by (rule rval_rel_bounds)
  have tauT: "\<tau> / T = 1 / 2 ^ 200" "T / \<tau> = 2 ^ 200" by (simp_all add: \<tau>_def T_def)
  have th: "0 < \<tau>" "1 \<le> T" by (simp_all add: \<tau>_def T_def)
  have th3: "pow2 (- 1022) \<le> \<tau> / T" unfolding tauT pow2_neg_200 by (rule pow2_mono) simp
  have d1: "isDouble \<tau>" unfolding \<tau>_def pow2_neg_100 by (rule isDouble_pow2) simp_all
  have d2: "isDouble (\<tau> / T)" unfolding tauT pow2_neg_200 by (rule isDouble_pow2) simp_all
  have d3: "\<And>j. j < 2 ^ 32 \<Longrightarrow> isDouble (real j * T)"
    unfolding T_def by (rule isDouble_nat_pow2') simp_all
  have d4: "\<And>j. j < 2 ^ 32 \<Longrightarrow> isDouble (real j * (T / \<tau>))"
    unfolding tauT by (rule isDouble_nat_pow2') simp_all
  have e9: "eps9 = Fin (4835703278458517 / 2 ^ 82)" "\<tau> \<le> 4835703278458517 / 2 ^ 82"
    by (simp_all add: eps9_eval \<tau>_def)
  have ne: "ls \<noteq> []"
  proof
    assume "ls = []"
    then have "marketFill b sd (Fin n) = None" by (simp add: marketFill_def ls_def)
    with fl show False by simp
  qed
  have lv: "\<forall>l\<in>set ls. \<tau> \<le> price l \<and> price l \<le> T \<and> \<tau> \<le> price l * size_l l \<and> 0 < size_l l"
    using nr sortedLevels_pos[of _ b sd]
    by (auto simp: normalRange_def list_all_iff ls_def \<tau>_def T_def)
  have rn: "\<tau> \<le> n" "n \<le> T" using nr by (simp_all add: normalRange_def \<tau>_def T_def)
  have csne: "cs \<noteq> []" unfolding cs_def using ne by (rule consumedLevels_nonempty)
  then have fin: "finite (price ` set cs)" "price ` set cs \<noteq> {}" by simp_all
  have cs: "\<forall>l\<in>set cs. lo \<le> price l \<and> price l \<le> hi"
    unfolding lo_def hi_def using fin by (auto intro: Min_le Max_ge)
  have "lo \<in> price ` set cs" unfolding lo_def using fin by (rule Min_in)
  then obtain l0 where l0: "l0 \<in> set cs" "lo = price l0" by blast
  from l0(1) consumedLevels_subset[of ls "Fin n"] have "l0 \<in> set ls" by (auto simp: cs_def)
  with lv l0(2) th(1) have lo0: "0 < lo" by force
  with cs l0 have hi0: "0 < hi" by force
  have z: "isDouble 0" by (simp add: isDouble_def)
  have "\<exists>r' s' c'. fillLoop ls (Fin n) (Fin 0) (Fin 0) = (Fin r', Fin s', Fin c') \<and>
           \<tau> / T \<le> s' \<and> s' \<le> real (0 + length (consumedLevels ls (Fin n))) * (T / \<tau>) \<and>
           \<tau> \<le> c' \<and> c' \<le> real (0 + length (consumedLevels ls (Fin n))) * T \<and>
           c' * b' ^ Suc (0 + length (consumedLevels ls (Fin n)))
             \<le> hi * a ^ (0 + length (consumedLevels ls (Fin n))) * s' \<and>
           lo * b' ^ (0 + length (consumedLevels ls (Fin n))) * s'
             \<le> c' * a ^ Suc (0 + length (consumedLevels ls (Fin n)))"
    using lo0 hi0 cs len
    by (intro fillLoop_ratio[OF ab rel th th3 d1 d2 d3 d4 e9 _ _ ne lv _ n rn z _ _ z])
       (simp_all add: cs_def ls_def)
  then obtain r' s' c' where run: "fillLoop ls (Fin n) (Fin 0) (Fin 0) = (Fin r', Fin s', Fin c')"
    and sb: "\<tau> / T \<le> s'" "s' \<le> real k * (T / \<tau>)"
    and cb: "\<tau> \<le> c'" "c' \<le> real k * T"
    and U: "c' * b' ^ Suc k \<le> hi * a ^ k * s'"
    and L: "lo * b' ^ k * s' \<le> c' * a ^ Suc k"
    by (auto simp: k_def cs_def)
  have "(0 :: real) < 1 / 2 ^ 200" by simp
  with sb(1) have s0: "0 < s'" unfolding tauT by linarith
  from fl run have f: "f = \<lparr>avgPrice = ddiv (Fin c') (Fin s'), shares = Fin s', notional = Fin c'\<rparr>"
    by (auto simp: marketFill_def ls_def split: if_splits)
  have dv: "ddiv (Fin c') (Fin s') = rnd (c' / s')" using s0 by simp
  have kl: "k \<le> length ls" unfolding k_def cs_def by (rule consumedLevels_length)
  have "k < 2 ^ 32" using kl len by (simp add: ls_def)
  then have "real k \<le> real (2 ^ 32)" by (intro of_nat_mono) simp
  then have k32: "real k \<le> 2 ^ 32" by simp
  have "s' \<le> 2 ^ 32 * (2 ^ 200 :: real)"
    using sb(2) k32 unfolding tauT
    by (meson mult_right_mono order_trans zero_le_numeral zero_le_power)
  then have su: "s' \<le> 2 ^ 232" by simp
  have "c' \<le> 2 ^ 32 * (2 ^ 100 :: real)"
    using cb(2) k32 unfolding T_def
    by (meson mult_right_mono order_trans zero_le_numeral zero_le_power)
  then have cu: "c' \<le> 2 ^ 132" by simp
  define x where "x = c' / s'"
  have "(1 / 2 ^ 100) / 2 ^ 232 \<le> c' / s'"
    using cb(1) su s0 unfolding \<tau>_def by (intro frac_le) simp_all
  then have xl: "1 / 2 ^ 332 \<le> x" by (simp add: x_def)
  have "c' / s' \<le> 2 ^ 132 / (1 / 2 ^ 200)"
    using cu sb(1) cb(1) th(1) unfolding tauT by (intro frac_le) simp_all
  then have xu: "x \<le> 2 ^ 332" by (simp add: x_def)
  have x0: "0 \<le> x" using xl by (simp add: order_trans[rotated])
  have "pow2 (- 1022) \<le> pow2 (- 332)" by (rule pow2_mono) simp
  also have "pow2 (- 332) = 1 / 2 ^ 332" using pow2_neg_nat[of 332] by simp
  finally have xn: "pow2 (- 1022) \<le> x" using xl by simp
  have "isDouble (pow2 332)" by (rule isDouble_pow2) simp_all
  then have dW: "isDouble (2 ^ 332)" using pow2_nat[of 332] by simp
  from rnd_between[OF x0 xu dW]
  obtain p where p: "rnd x = Fin p" "p = rval x" by blast
  from rel[OF xn] have pr: "b' * (c' / s') \<le> p" "p \<le> a * (c' / s')"
    unfolding p(2) x_def by simp_all
  have a0: "0 < a" using ab(3) by simp
  from ratio_final_upper[OF ab(1) a0 s0 U pr(2)]
  have up: "p \<le> hi * (a / b') ^ Suc k" .
  from ratio_final_lower[OF ab(1) a0 s0 L pr(1)]
  have lw: "lo * (b' / a) ^ Suc k \<le> p" .
  have rf: "roundingFactor k = (a / b') ^ Suc k" by (simp add: roundingFactor_def a_def b'_def)
  have "(b' / a) ^ Suc k = 1 / (a / b') ^ Suc k" by (simp add: power_divide)
  then have lw': "lo / roundingFactor k \<le> p" using lw unfolding rf by simp
  have "avgPrice f = Fin p" using s0 by (simp add: f p(1)[unfolded x_def])
  moreover have "p \<le> hi * roundingFactor k" using up unfolding rf .
  ultimately show ?thesis using lw' unfolding lo_def hi_def k_def cs_def ls_def by blast
qed

text \<open>
  C3, as the code has it. Take a requested notional that is a finite double of at most
  \<open>2\<^sup>9\<^sup>9\<^sup>0\<close> and a side of fewer than \<open>2\<^sup>3\<^sup>2\<close> valid levels (an array of the language is
  shorter than that). Whenever \<^verbatim>\<open>marketFill\<close> returns a fill, its shares are strictly
  positive, its average price is not negative, and its average price is at most 1 when
  every finite price of the book lies in \<open>[0, 1]\<close>; the comparisons are those of the
  language on doubles. The average price is a rounded quotient of rounded sums: it lies
  between the smallest and the largest price of the levels consumed up to the rounding
  factor \<open>((1 + 2\<^sup>-\<^sup>5\<^sup>3) / (1 - 2\<^sup>-\<^sup>5\<^sup>3))\<^sup>k\<^sup>+\<^sup>1\<close> for \<open>k\<close> levels consumed, when the notional, the
  prices and the level values are in the normal range, and not always between them.
\<close>

theorem marketFill_fill_bounds:
  assumes "isDouble n" "n \<le> 2 ^ 990" "length (sortedLevels b sd) < 2 ^ 32"
    and "marketFill b sd (Fin n) = Some f"
  shows "dless (Fin 0) (shares f) \<and> dle (Fin 0) (avgPrice f) \<and>
         (pricesInUnit b \<longrightarrow> dle (avgPrice f) (Fin 1)) \<and>
         (normalRange (sortedLevels b sd) n \<longrightarrow>
            (\<exists>p. avgPrice f = Fin p \<and>
               Min (price ` set (consumedLevels (sortedLevels b sd) (Fin n)))
                 / roundingFactor (length (consumedLevels (sortedLevels b sd) (Fin n))) \<le> p \<and>
               p \<le> Max (price ` set (consumedLevels (sortedLevels b sd) (Fin n)))
                 * roundingFactor (length (consumedLevels (sortedLevels b sd) (Fin n)))))"
  using marketFill_sign_bounds[OF assms] marketFill_range[OF assms(1) _ assms(3,4)] by blast

lemma roundedBook_levels:
  "sortedLevels roundedBook Buy = [\<lparr>price = 29 / 64, size_l = 1024\<rparr>]"
  by (simp add: roundedBook_def sortedLevels_def lvl_def List.map_filter_simps)

lemma roundedBook_consumed:
  "consumedLevels [\<lparr>price = 29 / 64, size_l = 1024\<rparr>] (Fin 200)
     = [\<lparr>price = 29 / 64, size_l = 1024\<rparr>]"
  by (simp add: Let_def)

lemma roundedBook_fill:
  "marketFill roundedBook Buy (Fin 200) =
     Some \<lparr>avgPrice = Fin (8162774324609025 / 2 ^ 54), shares = Fin (3882413471871117 / 2 ^ 43),
           notional = Fin 200\<rparr>"
proof -
  have r1: "rnd 464 = Fin 464" using rnd_int[of 464] by simp
  have r2: "rnd (12800 / 29) = Fin (3882413471871117 / 2 ^ 43)"
    using rnd_eval[of "12800 / 29" 44 7764826943742234] by simp
  have r3: "rnd (3882413471871117 / 2 ^ 43) = Fin (3882413471871117 / 2 ^ 43)"
    using rnd_dyadic[of 3882413471871117 43] by simp
  have r5: "rnd (200 / (3882413471871117 / 2 ^ 43)) = Fin (8162774324609025 / 2 ^ 54)"
    using rnd_eval[of "200 / (3882413471871117 / 2 ^ 43)" 54 8162774324609025] by simp
  have loop: "fillLoop [\<lparr>price = 29 / 64, size_l = 1024\<rparr>] (Fin 200) (Fin 0) (Fin 0)
     = (Fin 0, Fin (3882413471871117 / 2 ^ 43), Fin 200)"
    using eps9_nonneg r1 r2 r3 rnd_200 by (simp add: fillLoop_step dsub_def)
  show ?thesis
    unfolding marketFill_def roundedBook_levels loop
    using r5 dless_nonneg[OF eps6_nonneg] by simp
qed

theorem marketFill_fill_bounds_witness:
  "isDouble 200 \<and> (200 :: real) \<le> 2 ^ 990 \<and> length (sortedLevels roundedBook Buy) < 2 ^ 32 \<and>
   pricesInUnit roundedBook \<and> normalRange (sortedLevels roundedBook Buy) 200 \<and>
   marketFill roundedBook Buy (Fin 200) =
     Some \<lparr>avgPrice = Fin (8162774324609025 / 2 ^ 54), shares = Fin (3882413471871117 / 2 ^ 43),
           notional = Fin 200\<rparr> \<and>
   consumedLevels (sortedLevels roundedBook Buy) (Fin 200) = [\<lparr>price = 29 / 64, size_l = 1024\<rparr>] \<and>
   dless (Fin 0) (Fin (3882413471871117 / 2 ^ 43)) \<and>
   dle (Fin 0) (Fin (8162774324609025 / 2 ^ 54)) \<and>
   dle (Fin (8162774324609025 / 2 ^ 54)) (Fin 1) \<and>
   29 / 64 / roundingFactor 1 \<le> 8162774324609025 / 2 ^ 54 \<and>
   8162774324609025 / 2 ^ 54 \<le> 29 / 64 * roundingFactor 1"
proof -
  have d: "isDouble 200" by (simp add: isDouble_def rnd_200)
  have b: "(200 :: real) \<le> 2 ^ 990" by simp
  have l: "length (sortedLevels roundedBook Buy) < 2 ^ 32" by (simp add: roundedBook_levels)
  have u: "pricesInUnit roundedBook" by (simp add: pricesInUnit_def roundedBook_def lvl_def)
  have nr: "normalRange (sortedLevels roundedBook Buy) 200"
    by (simp add: normalRange_def roundedBook_levels)
  have cs: "consumedLevels (sortedLevels roundedBook Buy) (Fin 200)
              = [\<lparr>price = 29 / 64, size_l = 1024\<rparr>]"
    unfolding roundedBook_levels by (rule roundedBook_consumed)
  from marketFill_fill_bounds[OF d b l roundedBook_fill] u nr
  obtain p where s: "dless (Fin 0) (Fin (3882413471871117 / 2 ^ 43))"
    and p: "Fin (8162774324609025 / 2 ^ 54) = Fin p" "dle (Fin 0) (Fin p)" "dle (Fin p) (Fin 1)"
      "Min (price ` set [\<lparr>price = 29 / 64, size_l = 1024\<rparr>])
         / roundingFactor (length [\<lparr>price = 29 / 64, size_l = 1024\<rparr>]) \<le> p"
      "p \<le> Max (price ` set [\<lparr>price = 29 / 64, size_l = 1024\<rparr>])
         * roundingFactor (length [\<lparr>price = 29 / 64, size_l = 1024\<rparr>])"
    unfolding cs by auto
  from p(1) have pe: "p = 8162774324609025 / 2 ^ 54" by (simp only: double.inject)
  have "29 / 64 / roundingFactor 1 \<le> p \<and> p \<le> 29 / 64 * roundingFactor 1"
    using p(4,5) by simp
  with p(2,3) have "dle (Fin 0) (Fin (8162774324609025 / 2 ^ 54)) \<and>
      dle (Fin (8162774324609025 / 2 ^ 54)) (Fin 1) \<and>
      29 / 64 / roundingFactor 1 \<le> 8162774324609025 / 2 ^ 54 \<and>
      8162774324609025 / 2 ^ 54 \<le> 29 / 64 * roundingFactor 1"
    unfolding pe by blast
  with d b l u nr cs roundedBook_fill s show ?thesis by blast
qed

text \<open>
  One ask of 1024 shares at 0.453125 and a notional of 200: the only level consumed has the
  price \<open>29 / 64\<close>, and the average price returned, 0.45312500000000006, is the next double
  above it.
\<close>

theorem marketFill_avgPrice_above_level:
  "marketFill roundedBook Buy (Fin 200) =
     Some \<lparr>avgPrice = Fin (8162774324609025 / 2 ^ 54), shares = Fin (3882413471871117 / 2 ^ 43),
           notional = Fin 200\<rparr> \<and>
   consumedLevels (sortedLevels roundedBook Buy) (Fin 200) = [\<lparr>price = 29 / 64, size_l = 1024\<rparr>] \<and>
   (29 / 64 :: real) < 8162774324609025 / 2 ^ 54"
  using roundedBook_fill roundedBook_consumed by (simp add: roundedBook_levels)

text \<open>
  C10 on the code. The notional \<^verbatim>\<open>-Infinity\<close> is \<open>\<le> 0\<close>. On a book with two valid asks the
  first level takes \<^verbatim>\<open>-Infinity\<close>, the remainder becomes \<^verbatim>\<open>-Infinity - (-Infinity)\<close>, which is
  \<^verbatim>\<open>NaN\<close>, the loop does not break, the second level turns the shares and the cost into
  \<^verbatim>\<open>NaN\<close>, none of the three guards holds of \<^verbatim>\<open>NaN\<close>, and \<^verbatim>\<open>marketFill\<close> returns a fill
  whose three fields are \<^verbatim>\<open>NaN\<close> where \<open>None\<close> is specified.
\<close>

theorem marketFill_negative_infinity:
  "dle NegInf (Fin 0) \<and>
   sortedLevels twoLevelBook Buy
     = [\<lparr>price = 1 / 2, size_l = 1000\<rparr>, \<lparr>price = 3 / 4, size_l = 1000\<rparr>] \<and>
   marketFill twoLevelBook Buy NegInf = Some \<lparr>avgPrice = NaN, shares = NaN, notional = NaN\<rparr>"
proof -
  have sl: "sortedLevels twoLevelBook Buy
     = [\<lparr>price = 1 / 2, size_l = 1000\<rparr>, \<lparr>price = 3 / 4, size_l = 1000\<rparr>]"
    by (simp add: twoLevelBook_def sortedLevels_def lvl_def List.map_filter_simps)
  from marketFill_NegInf[OF sl] sl show ?thesis by simp
qed

section \<open>Properties of the scoring model\<close>



lemma mathRound_range:
  assumes "0 \<le> x" "x \<le> 100"
  shows "0 \<le> mathRound x \<and> mathRound x \<le> 100"
proof -
  have "0 \<le> \<lfloor>x + 1 / 2\<rfloor>" using assms(1) by simp
  moreover have "x + 1 / 2 < 101" using assms(2) by simp
  then have "\<lfloor>x + 1 / 2\<rfloor> < 101" by (simp add: floor_less_iff)
  ultimately show ?thesis by (simp add: mathRound_def)
qed

lemma logScore_range: "logScore x = Some y \<Longrightarrow> 0 \<le> y \<and> y \<le> 1"
  by (auto simp: logScore_def clamp01_def split: if_splits)

lemma logScore_defined: "- 1 \<le> x \<Longrightarrow> \<exists>y. logScore x = Some y"
  by (simp add: logScore_def)


text \<open>
  C5, as the code has it. The score of the report, \<^verbatim>\<open>opportunityScore\<close>, is a number for
  every 24h volume and liquidity of at least -1 (so for all non-negative inputs), and then
  an integer between 0 and 100: the weighted sum is clamped to \<open>[0, 100]\<close> and rounded.
  The score the engine computes in \<^verbatim>\<open>findOpportunity\<close> is another formula, neither clamped
  nor rounded.
\<close>

theorem opportunityScore_range:
  "(opportunityScore spread vol24h liq absMove1h slipBuy slipSell = Some n \<longrightarrow>
      0 \<le> n \<and> n \<le> 100) \<and>
   (- 1 \<le> vol24h \<and> - 1 \<le> liq \<longrightarrow>
      (\<exists>k. opportunityScore spread vol24h liq absMove1h slipBuy slipSell = Some k))"
proof (intro conjI impI)
  assume "opportunityScore spread vol24h liq absMove1h slipBuy slipSell = Some n"
  then obtain x where "n = mathRound (max 0 (min 100 x))"
    by (auto simp: opportunityScore_def Let_def split: option.splits)
  moreover have "0 \<le> mathRound (max 0 (min 100 x)) \<and> mathRound (max 0 (min 100 x)) \<le> 100"
    by (rule mathRound_range) simp_all
  ultimately show "0 \<le> n" and "n \<le> 100" by simp_all
next
  assume "- 1 \<le> vol24h \<and> - 1 \<le> liq"
  then obtain a b where "logScore vol24h = Some a" "logScore liq = Some b"
    using logScore_defined by blast
  then show "\<exists>k. opportunityScore spread vol24h liq absMove1h slipBuy slipSell = Some k"
    by (simp add: opportunityScore_def Let_def)
qed

theorem opportunityScore_range_witness:
  "(- 1 :: real) \<le> 0 \<and>
   opportunityScore (1 / 100) 0 0 (1 / 10) (Some (1 / 100)) None = Some 11 \<and>
   (0 :: int) \<le> 11 \<and> (11 :: int) \<le> 100"
proof -
  have e: "opportunityScore (1 / 100) 0 0 (1 / 10) (Some (1 / 100)) None = Some 11"
    by (simp add: opportunityScore_def logScore_def clamp01_def mathRound_def Let_def)
  from opportunityScore_range[of "1 / 100" 0 0 "1 / 10" "Some (1 / 100)" None 11] e
  show ?thesis by simp
qed

text \<open>
  The engine's score of a token that moved by 0.20 at a spread of 0.01 (the maximum spread
  being 0.02) in a market of 24h volume 99999 is 200 + 10 + 15 = 225.
\<close>

theorem liveScore_exceeds_100:
  "\<not> liveScore (1 / 5) (1 / 100) (1 / 50) 99999 \<le> 100"
proof -
  have "log 10 (1 + 99999 :: real) = log 10 (10 ^ 5)" by simp
  also have "\<dots> = 5" by (simp only: log_pow_cancel)
  finally have "liveScore (1 / 5) (1 / 100) (1 / 50) 99999 = 225"
    by (simp add: liveScore_def)
  then show ?thesis by simp
qed



section \<open>Properties of the best prices\<close>

lemma finitePrices_Nil: "finitePrices [] = []"
  by (simp add: finitePrices_def)

lemma finitePrices_Cons:
  "finitePrices (l # ls) =
     (case raw_price l of Finite p \<Rightarrow> p # finitePrices ls | NonFinite \<Rightarrow> finitePrices ls)"
  by (simp add: finitePrices_def split: number.splits)

lemma bestBidLoop_Max:
  "bestBidLoop ls acc =
     (if finitePrices ls = [] then acc
      else Some (Max (set (finitePrices ls) \<union> set_option acc)))"
proof (induction ls arbitrary: acc)
  case Nil
  then show ?case by (simp add: finitePrices_Nil)
next
  case (Cons l ls)
  show ?case
  proof (cases "raw_price l")
    case NonFinite
    then show ?thesis using Cons.IH[of acc] by (simp add: finitePrices_Cons)
  next
    case (Finite p)
    show ?thesis
    proof (cases acc)
      case None
      with Finite Cons.IH[of "Some p"] show ?thesis
        by (simp add: finitePrices_Cons)
    next
      case (Some q)
      show ?thesis
      proof (cases "p > q")
        case True
        with Some Finite Cons.IH[of "Some p"] show ?thesis
          by (auto simp: finitePrices_Cons Max_insert insert_commute max.absorb1 max.absorb2
              intro!: arg_cong[where f=Max])
      next
        case False
        with Some Finite Cons.IH[of "Some q"] show ?thesis
          by (auto simp: finitePrices_Cons insert_commute max.absorb1 max.absorb2)
      qed
    qed
  qed
qed

lemma bestAskLoop_Min:
  "bestAskLoop ls acc =
     (if finitePrices ls = [] then acc
      else Some (Min (set (finitePrices ls) \<union> set_option acc)))"
proof (induction ls arbitrary: acc)
  case Nil
  then show ?case by (simp add: finitePrices_Nil)
next
  case (Cons l ls)
  show ?case
  proof (cases "raw_price l")
    case NonFinite
    then show ?thesis using Cons.IH[of acc] by (simp add: finitePrices_Cons)
  next
    case (Finite p)
    show ?thesis
    proof (cases acc)
      case None
      with Finite Cons.IH[of "Some p"] show ?thesis
        by (simp add: finitePrices_Cons)
    next
      case (Some q)
      show ?thesis
      proof (cases "p < q")
        case True
        with Some Finite Cons.IH[of "Some p"] show ?thesis
          by (auto simp: finitePrices_Cons Min_insert insert_commute min.absorb1 min.absorb2
              intro!: arg_cong[where f=Min])
      next
        case False
        with Some Finite Cons.IH[of "Some q"] show ?thesis
          by (auto simp: finitePrices_Cons insert_commute min.absorb1 min.absorb2)
      qed
    qed
  qed
qed

text \<open>
  What the code computes: for every order book \<^verbatim>\<open>bestBidAsk\<close> gives the largest bid price
  and the smallest ask price among the levels whose price is finite, whatever the sign of
  that price, and \<open>None\<close> for a side without a finite price. Only the levels of non-finite
  price are ignored.
\<close>

lemma bestBidAsk_finite_extrema:
  "bestBid (bestBidAsk b) =
     (if finitePrices (bids b) = [] then None else Some (Max (set (finitePrices (bids b))))) \<and>
   bestAsk (bestBidAsk b) =
     (if finitePrices (asks b) = [] then None else Some (Min (set (finitePrices (asks b)))))"
  by (simp add: bestBidAsk_def bestBidLoop_Max bestAskLoop_Min)

text \<open>
  C9 on the code. Take a book whose only bid has the price -0.125 and whose asks have the
  prices 0 and 0.5. \<^verbatim>\<open>bestBidAsk\<close> does not ignore the levels of non-positive price: it
  returns the best bid -0.125 and the best ask 0, where the levels to ignore leave no best
  bid and the best ask 0.5. The fill simulator of the same module does ignore them
  (\<^verbatim>\<open>l.price > 0\<close>): of these asks it keeps the one at 0.5.
\<close>

theorem bestBidAsk_nonpositive_prices:
  "bestBidAsk \<lparr>bids = [\<lparr>raw_price = Finite (- 1 / 8), raw_size = Finite 5\<rparr>],
               asks = [\<lparr>raw_price = Finite 0, raw_size = Finite 10\<rparr>,
                       \<lparr>raw_price = Finite (1 / 2), raw_size = Finite 10\<rparr>]\<rparr>
     = \<lparr>bestBid = Some (- 1 / 8), bestAsk = Some 0\<rparr> \<and>
   sortedLevels \<lparr>bids = [\<lparr>raw_price = Finite (- 1 / 8), raw_size = Finite 5\<rparr>],
               asks = [\<lparr>raw_price = Finite 0, raw_size = Finite 10\<rparr>,
                       \<lparr>raw_price = Finite (1 / 2), raw_size = Finite 10\<rparr>]\<rparr> Buy
     = [\<lparr>price = 1 / 2, size_l = 10\<rparr>] \<and>
   sortedLevels \<lparr>bids = [\<lparr>raw_price = Finite (- 1 / 8), raw_size = Finite 5\<rparr>],
               asks = [\<lparr>raw_price = Finite 0, raw_size = Finite 10\<rparr>,
                       \<lparr>raw_price = Finite (1 / 2), raw_size = Finite 10\<rparr>]\<rparr> Sell
     = []"
  by (simp add: bestBidAsk_def sortedLevels_def)

section \<open>Properties of the exit rule\<close>

text \<open>
  C2. \<^verbatim>\<open>shouldExit\<close> decides in a fixed order. An age of at least \<^verbatim>\<open>maxHoldMs\<close> gives
  \<open>TIME_STOP\<close> whatever the bid is; below that age a bid at or above the take-profit price
  gives \<open>TAKE_PROFIT\<close>; else a bid at or below the stop-loss price gives \<open>STOP_LOSS\<close>; else
  there is no exit. So a tick on which the time stop and the take profit both hold is a
  \<open>TIME_STOP\<close>.
\<close>

theorem shouldExit_priority:
  "(now - openedAt p \<ge> maxHoldMs (exits p) \<longrightarrow>
      shouldExit now p mk = Some \<lparr>reason = TIME_STOP, exitAt = now\<rparr>) \<and>
   (now - openedAt p < maxHoldMs (exits p) \<and> mark_bid mk \<ge> takeProfitPrice (exits p) \<longrightarrow>
      shouldExit now p mk = Some \<lparr>reason = TAKE_PROFIT, exitAt = now\<rparr>) \<and>
   (now - openedAt p < maxHoldMs (exits p) \<and> mark_bid mk < takeProfitPrice (exits p) \<and>
    mark_bid mk \<le> stopLossPrice (exits p) \<longrightarrow>
      shouldExit now p mk = Some \<lparr>reason = STOP_LOSS, exitAt = now\<rparr>) \<and>
   (now - openedAt p < maxHoldMs (exits p) \<and> mark_bid mk < takeProfitPrice (exits p) \<and>
    mark_bid mk > stopLossPrice (exits p) \<longrightarrow>
      shouldExit now p mk = None) \<and>
   (now - openedAt p \<ge> maxHoldMs (exits p) \<and> mark_bid mk \<ge> takeProfitPrice (exits p) \<longrightarrow>
      reason (the (shouldExit now p mk)) = TIME_STOP)"
  by (simp add: shouldExit_def Let_def)

theorem shouldExit_priority_witness:
  "shouldExit 3600000 examplePosition (markAt 3600000 (17 / 40))
     = Some \<lparr>reason = TIME_STOP, exitAt = 3600000\<rparr> \<and>
   shouldExit 60000 examplePosition (markAt 60000 (17 / 40))
     = Some \<lparr>reason = TAKE_PROFIT, exitAt = 60000\<rparr> \<and>
   shouldExit 60000 examplePosition (markAt 60000 (37 / 100))
     = Some \<lparr>reason = STOP_LOSS, exitAt = 60000\<rparr> \<and>
   shouldExit 60000 examplePosition (markAt 60000 (2 / 5)) = None \<and>
   shouldExit 3600000 examplePosition (markAt 3600000 (2 / 5))
     = Some \<lparr>reason = TIME_STOP, exitAt = 3600000\<rparr>"
  using shouldExit_priority[of examplePosition 3600000 "markAt 3600000 (17 / 40)"]
        shouldExit_priority[of examplePosition 60000 "markAt 60000 (17 / 40)"]
        shouldExit_priority[of examplePosition 60000 "markAt 60000 (37 / 100)"]
        shouldExit_priority[of examplePosition 60000 "markAt 60000 (2 / 5)"]
        shouldExit_priority[of examplePosition 3600000 "markAt 3600000 (2 / 5)"]
  by (simp add: examplePosition_def markAt_def)

section \<open>Properties of the position lifecycle\<close>

subsection \<open>The worked example\<close>

lemma lvl_sel: "raw_price (lvl p s) = Finite p" "raw_size (lvl p s) = Finite s"
  by (simp_all add: lvl_def)

text \<open>The two fills of the example: every operation of the walk is exact there.\<close>

lemma exampleBook_fill:
  "marketFill \<lparr>bids = [lvl (3 / 8) 1000], asks = [lvl (25 / 64) 1000]\<rparr> Buy (Fin 200) =
     Some \<lparr>avgPrice = Fin (25 / 64), shares = Fin 512, notional = Fin 200\<rparr>"
proof -
  have sl: "sortedLevels \<lparr>bids = [lvl (3 / 8) 1000], asks = [lvl (25 / 64) 1000]\<rparr> Buy
              = [\<lparr>price = 25 / 64, size_l = 1000\<rparr>]"
    by (simp add: sortedLevels_def lvl_def List.map_filter_simps)
  have r1: "rnd (3125 / 8) = Fin (3125 / 8)" using rnd_dyadic[of 3125 3] by simp
  have r2: "rnd 512 = Fin 512" using rnd_int[of 512] by simp
  have r3: "rnd (25 / 64) = Fin (25 / 64)" using rnd_dyadic[of 25 6] by simp
  have loop: "fillLoop [\<lparr>price = 25 / 64, size_l = 1000\<rparr>] (Fin 200) (Fin 0) (Fin 0)
     = (Fin 0, Fin 512, Fin 200)"
    using eps9_nonneg r1 r2 rnd_200 by (simp add: fillLoop_step dsub_def)
  show ?thesis
    unfolding marketFill_def sl loop using r3 dless_nonneg[OF eps6_nonneg] by simp
qed

lemma exitBook_fill:
  "marketFill \<lparr>bids = [lvl (1 / 2) 1000], asks = [lvl (33 / 64) 1000]\<rparr> Sell (Fin 200) =
     Some \<lparr>avgPrice = Fin (1 / 2), shares = Fin 400, notional = Fin 200\<rparr>"
proof -
  have sl: "sortedLevels \<lparr>bids = [lvl (1 / 2) 1000], asks = [lvl (33 / 64) 1000]\<rparr> Sell
              = [\<lparr>price = 1 / 2, size_l = 1000\<rparr>]"
    by (simp add: sortedLevels_def lvl_def List.map_filter_simps)
  have r1: "rnd 500 = Fin 500" using rnd_int[of 500] by simp
  have r2: "rnd 400 = Fin 400" using rnd_int[of 400] by simp
  have r3: "rnd (1 / 2) = Fin (1 / 2)" using rnd_dyadic[of 1 1] by simp
  have loop: "fillLoop [\<lparr>price = 1 / 2, size_l = 1000\<rparr>] (Fin 200) (Fin 0) (Fin 0)
     = (Fin 0, Fin 400, Fin 200)"
    using eps9_nonneg r1 r2 rnd_200 by (simp add: fillLoop_step dsub_def)
  show ?thesis
    unfolding marketFill_def sl loop using r3 dless_nonneg[OF eps6_nonneg] by simp
qed

lemma evalMarket_example:
  "evalMarket emptyState defaultConfig exampleBooks exampleMarket =
     ([''tokA'', ''tokB''],
      [\<lparr>su_tokenId = ''tokA'', su_mid = 49 / 128, su_bid = 3 / 8, su_ask = 25 / 64\<rparr>,
       \<lparr>su_tokenId = ''tokB'', su_mid = 79 / 128, su_bid = 39 / 64, su_ask = 5 / 8\<rparr>],
      Some exampleOpportunity)"
  by (simp add: evalMarket_def exampleMarket_def exampleBooks_def emptyState_def defaultConfig_def
      lvl_sel bestBidAsk_def pickTokenByMove_def rnd_200 exampleBook_fill volumeOf_def
      exampleOpportunity_def Let_def)

lemma liveCandidates_example: "liveCandidates defaultConfig [exampleMarket] = [exampleMarket]"
  by (simp add: liveCandidates_def exampleMarket_def defaultConfig_def volumeOf_def liquidityOf_def)

lemma findOpportunity_example:
  "findOpportunity emptyState defaultConfig (Some [exampleMarket]) exampleBooks =
     Inr \<lparr>res_best = Some exampleOpportunity,
          res_snapshotUpdates =
            [\<lparr>su_tokenId = ''tokA'', su_mid = 49 / 128, su_bid = 3 / 8, su_ask = 25 / 64\<rparr>,
             \<lparr>su_tokenId = ''tokB'', su_mid = 79 / 128, su_bid = 39 / 64, su_ask = 5 / 8\<rparr>],
          res_fetched = [''tokA'', ''tokB'']\<rparr>"
  by (simp add: findOpportunity_def liveCandidates_example evalMarket_example)

lemma buildPosition_example:
  "buildPosition 0 exampleOpportunity defaultConfig = examplePosition"
  by (simp add: buildPosition_def exampleOpportunity_def defaultConfig_def exampleMarket_def
      examplePosition_def Let_def)

lemma scanCycle_example:
  "\<exists>st. scanCycle defaultConfig scanEnv emptyState =
          Inr \<lparr>out_state = st, out_log = [((0, ''m1'', ''tokA''), OPEN 0 examplePosition)],
               out_closed = None, out_fetched = [''tokA'', ''tokB'']\<rparr> \<and>
        openPosition st = Some examplePosition"
proof -
  have f: "findOpportunity emptyState defaultConfig (env_catalog scanEnv) (env_book scanEnv) =
     Inr \<lparr>res_best = Some exampleOpportunity,
          res_snapshotUpdates =
            [\<lparr>su_tokenId = ''tokA'', su_mid = 49 / 128, su_bid = 3 / 8, su_ask = 25 / 64\<rparr>,
             \<lparr>su_tokenId = ''tokB'', su_mid = 79 / 128, su_bid = 39 / 64, su_ask = 5 / 8\<rparr>],
          res_fetched = [''tokA'', ''tokB'']\<rparr>"
    by (simp add: scanEnv_def findOpportunity_example)
  have n: "env_now scanEnv = 0" by (simp add: scanEnv_def)
  have i: "pos_id examplePosition = (0, ''m1'', ''tokA'')" by (simp add: examplePosition_def)
  show ?thesis
    by (simp add: scanCycle_def f n Let_def buildPosition_example markAndSnapshot_def i)
qed

lemma monitorCycle_example:
  "openPosition (out_state (monitorCycle defaultConfig takeProfitEnv heldState examplePosition)) = None \<and>
   map snd (out_log (monitorCycle defaultConfig takeProfitEnv heldState examplePosition))
     = [MARK 60000 (1 / 2) (33 / 64) (65 / 128), CLOSE 60000 TAKE_PROFIT (1 / 2) 56]"
  by (simp add: monitorCycle_def takeProfitEnv_def heldState_def examplePosition_def lvl_sel
      bestBidAsk_def shouldExit_def rnd_200 exitBook_fill markAndSnapshot_def Let_def)

subsection \<open>One turn of the loop\<close>

lemma monitorCycle_position:
  assumes "openPosition s = Some p"
  shows "openPosition (out_state (monitorCycle cfg e s p)) = None \<or>
         (\<exists>mk. openPosition (out_state (monitorCycle cfg e s p)) = Some (p\<lparr>lastMark := mk\<rparr>))"
proof (cases "out_state (monitorCycle cfg e s p) = s")
  case True
  with assms
  have "openPosition (out_state (monitorCycle cfg e s p)) = Some (p\<lparr>lastMark := lastMark p\<rparr>)"
    by simp
  then show ?thesis by blast
next
  case False
  then show ?thesis
    by (auto simp: monitorCycle_def Let_def markAndSnapshot_def split: option.splits)
qed

lemma monitorCycle_no_OPEN:
  "\<forall>ev\<in>set (out_log (monitorCycle cfg e s p)). \<not> isOPEN (snd ev)"
  by (auto simp: monitorCycle_def Let_def split: option.splits)

lemma monitorCycle_replay:
  assumes "openPosition s = Some p"
  shows "replay True (map snd (out_log (monitorCycle cfg e s p)))
           = Some (openPosition (out_state (monitorCycle cfg e s p)) \<noteq> None)"
  using assms
  by (auto simp: monitorCycle_def Let_def markAndSnapshot_def split: option.splits)

lemma monitorCycle_fetched: "out_fetched (monitorCycle cfg e s p) = [tokenId p]"
  by (auto simp: monitorCycle_def Let_def split: option.splits)

lemma scanCycle_cases:
  assumes "scanCycle cfg e s = Inr out"
  shows "(openPosition (out_state out) = openPosition s \<and> out_log out = []) \<or>
         (\<exists>pos. openPosition (out_state out) = Some pos \<and> status pos = ''OPEN'' \<and>
                out_log out = [(pos_id pos, OPEN (env_now e) pos)])"
  using assms
  by (auto simp: scanCycle_def Let_def markAndSnapshot_def buildPosition_def
      split: sum.splits option.splits)

lemma scanCycle_replay:
  assumes "scanCycle cfg e s = Inr out" "openPosition s = None"
  shows "replay False (map snd (out_log out)) = Some (openPosition (out_state out) \<noteq> None)"
  using scanCycle_cases[OF assms(1)] assms(2) by auto

lemma replay_append:
  "replay b (xs @ ys) = (case replay b xs of None \<Rightarrow> None | Some b' \<Rightarrow> replay b' ys)"
  by (induction b xs rule: replay.induct) auto

lemma cycle_replay:
  assumes "cycle cfg e s = Inr out"
  shows "replay (openPosition s \<noteq> None) (map snd (out_log out))
           = Some (openPosition (out_state out) \<noteq> None)"
proof (cases "openPosition s")
  case None
  with assms have "scanCycle cfg e s = Inr out" by (simp add: cycle_def)
  from scanCycle_replay[OF this None] None show ?thesis by simp
next
  case (Some p)
  with assms have "out = monitorCycle cfg e s p" by (simp add: cycle_def)
  with monitorCycle_replay[OF Some, of cfg e] Some show ?thesis by simp
qed

subsection \<open>A whole run\<close>

lemma run_replay:
  "run cfg es s = Inr (s', evs) \<Longrightarrow>
   replay (openPosition s \<noteq> None) (map snd evs) = Some (openPosition s' \<noteq> None)"
proof (induction es arbitrary: s evs)
  case Nil
  then show ?case by simp
next
  case (Cons e es)
  from Cons.prems obtain out evs' where
    c: "cycle cfg e s = Inr out" and r: "run cfg es (out_state out) = Inr (s', evs')"
    and evs: "evs = out_log out @ evs'"
    by (auto split: sum.splits prod.splits)
  from cycle_replay[OF c] Cons.IH[OF r] evs show ?case
    by (simp add: replay_append)
qed

text \<open>
  C1. The state on disk has one slot for a position. A turn of the loop that reads a state
  with an open position is the monitoring turn: it requests the book of that position's
  token only, appends no \<open>OPEN\<close> record, and leaves in the slot either nothing (the position
  closed) or the same position with a new last mark. A turn that appends an \<open>OPEN\<close> record
  read an empty slot; a turn that reads an empty slot leaves it empty or stores the one
  position it built, with one \<open>OPEN\<close> record. Over a whole run the trade log is a run of the
  machine \<open>replay\<close>: no \<open>OPEN\<close> is ever appended while a position is open.
\<close>

theorem single_open_position:
  "(cycle cfg e s = Inr out \<longrightarrow>
      (\<forall>p. openPosition s = Some p \<longrightarrow>
         out = monitorCycle cfg e s p \<and>
         out_fetched out = [tokenId p] \<and>
         (\<forall>ev\<in>set (out_log out). \<not> isOPEN (snd ev)) \<and>
         (openPosition (out_state out) = None \<or>
          (\<exists>mk. openPosition (out_state out) = Some (p\<lparr>lastMark := mk\<rparr>)))) \<and>
      ((\<exists>ev\<in>set (out_log out). isOPEN (snd ev)) \<longrightarrow> openPosition s = None) \<and>
      (openPosition s = None \<longrightarrow>
         (openPosition (out_state out) = None \<and> out_log out = []) \<or>
         (\<exists>pos. openPosition (out_state out) = Some pos \<and> status pos = ''OPEN'' \<and>
                out_log out = [(pos_id pos, OPEN (env_now e) pos)]))) \<and>
   (run cfg es s = Inr (s', evs) \<longrightarrow>
      replay (openPosition s \<noteq> None) (map snd evs) = Some (openPosition s' \<noteq> None))"
proof (intro conjI impI allI)
  fix p assume c: "cycle cfg e s = Inr out" and p: "openPosition s = Some p"
  then show o: "out = monitorCycle cfg e s p" by (simp add: cycle_def)
  show "out_fetched out = [tokenId p]" unfolding o by (rule monitorCycle_fetched)
  show "\<forall>ev\<in>set (out_log out). \<not> isOPEN (snd ev)" unfolding o by (rule monitorCycle_no_OPEN)
  show "openPosition (out_state out) = None \<or>
          (\<exists>mk. openPosition (out_state out) = Some (p\<lparr>lastMark := mk\<rparr>))"
    unfolding o by (rule monitorCycle_position[OF p])
next
  assume c: "cycle cfg e s = Inr out" and ex: "\<exists>ev\<in>set (out_log out). isOPEN (snd ev)"
  show "openPosition s = None"
  proof (rule ccontr)
    assume "openPosition s \<noteq> None"
    then obtain p where p: "openPosition s = Some p" by auto
    with c have "out = monitorCycle cfg e s p" by (simp add: cycle_def)
    with monitorCycle_no_OPEN[of cfg e s p] ex show False by blast
  qed
next
  assume c: "cycle cfg e s = Inr out" and n: "openPosition s = None"
  then have "scanCycle cfg e s = Inr out" by (simp add: cycle_def)
  from scanCycle_cases[OF this] n
  show "(openPosition (out_state out) = None \<and> out_log out = []) \<or>
         (\<exists>pos. openPosition (out_state out) = Some pos \<and> status pos = ''OPEN'' \<and>
                out_log out = [(pos_id pos, OPEN (env_now e) pos)])" by simp
next
  assume "run cfg es s = Inr (s', evs)"
  then show "replay (openPosition s \<noteq> None) (map snd evs) = Some (openPosition s' \<noteq> None)"
    by (rule run_replay)
qed

theorem single_open_position_witness:
  "openPosition emptyState = None \<and>
   openPosition (out_state (projr (cycle defaultConfig scanEnv emptyState))) = Some examplePosition \<and>
   out_log (projr (cycle defaultConfig scanEnv emptyState))
     = [((0, ''m1'', ''tokA''), OPEN 0 examplePosition)] \<and>
   openPosition heldState = Some examplePosition \<and>
   cycle defaultConfig takeProfitEnv heldState
     = Inr (monitorCycle defaultConfig takeProfitEnv heldState examplePosition) \<and>
   out_fetched (monitorCycle defaultConfig takeProfitEnv heldState examplePosition) = [''tokA''] \<and>
   openPosition (out_state (monitorCycle defaultConfig takeProfitEnv heldState examplePosition)) = None \<and>
   map snd (out_log (monitorCycle defaultConfig takeProfitEnv heldState examplePosition))
     = [MARK 60000 (1 / 2) (33 / 64) (65 / 128), CLOSE 60000 TAKE_PROFIT (1 / 2) 56] \<and>
   map snd (snd (projr (run defaultConfig [scanEnv, takeProfitEnv] emptyState)))
     = [OPEN 0 examplePosition, MARK 60000 (1 / 2) (33 / 64) (65 / 128),
        CLOSE 60000 TAKE_PROFIT (1 / 2) 56] \<and>
   openPosition (fst (projr (run defaultConfig [scanEnv, takeProfitEnv] emptyState))) = None \<and>
   replay False [OPEN 0 examplePosition, MARK 60000 (1 / 2) (33 / 64) (65 / 128),
        CLOSE 60000 TAKE_PROFIT (1 / 2) 56] = Some False"
proof -
  let ?o1 = "\<lambda>st. \<lparr>out_state = st, out_log = [((0, ''m1'', ''tokA''), OPEN 0 examplePosition)],
               out_closed = None, out_fetched = [''tokA'', ''tokB'']\<rparr>"
  obtain st where sc: "scanCycle defaultConfig scanEnv emptyState = Inr (?o1 st)"
    and op: "openPosition st = Some examplePosition"
    using scanCycle_example by blast
  have e0: "openPosition emptyState = None" by (simp add: emptyState_def)
  have h0: "openPosition heldState = Some examplePosition" by (simp add: heldState_def)
  have c1: "cycle defaultConfig scanEnv emptyState = Inr (?o1 st)"
    by (simp add: cycle_def e0 sc)
  have c2: "cycle defaultConfig takeProfitEnv heldState
     = Inr (monitorCycle defaultConfig takeProfitEnv heldState examplePosition)"
    by (simp add: cycle_def h0)
  have c3: "cycle defaultConfig takeProfitEnv st
     = Inr (monitorCycle defaultConfig takeProfitEnv st examplePosition)"
    by (simp add: cycle_def op)
  have m3: "openPosition (out_state (monitorCycle defaultConfig takeProfitEnv st examplePosition)) = None \<and>
   map snd (out_log (monitorCycle defaultConfig takeProfitEnv st examplePosition))
     = [MARK 60000 (1 / 2) (33 / 64) (65 / 128), CLOSE 60000 TAKE_PROFIT (1 / 2) 56]"
    by (simp add: monitorCycle_def takeProfitEnv_def examplePosition_def lvl_sel
      bestBidAsk_def shouldExit_def rnd_200 exitBook_fill markAndSnapshot_def Let_def)
  let ?s' = "out_state (monitorCycle defaultConfig takeProfitEnv st examplePosition)"
  let ?evs = "((0, ''m1'', ''tokA''), OPEN 0 examplePosition)
                # out_log (monitorCycle defaultConfig takeProfitEnv st examplePosition)"
  have r: "run defaultConfig [scanEnv, takeProfitEnv] emptyState = Inr (?s', ?evs)"
    by (simp add: c1 c3)
  have pr: "projr (run defaultConfig [scanEnv, takeProfitEnv] emptyState) = (?s', ?evs)"
    by (simp only: r sum.sel)
  have pc: "projr (cycle defaultConfig scanEnv emptyState) = ?o1 st"
    by (simp only: c1 sum.sel)
  from single_open_position[of defaultConfig scanEnv emptyState "?o1 st"
              "[scanEnv, takeProfitEnv]" ?s' ?evs] r
  have rp: "replay (openPosition emptyState \<noteq> None) (map snd ?evs) = Some (openPosition ?s' \<noteq> None)"
    by blast
  from single_open_position[of defaultConfig takeProfitEnv heldState
              "monitorCycle defaultConfig takeProfitEnv heldState examplePosition"
              "[]" heldState "[]"] c2 h0
  have mf: "out_fetched (monitorCycle defaultConfig takeProfitEnv heldState examplePosition)
              = [tokenId examplePosition]"
    by blast
  have tk: "tokenId examplePosition = ''tokA''" by (simp add: examplePosition_def)
  from rp m3 e0 have rp': "replay False [OPEN 0 examplePosition, MARK 60000 (1 / 2) (33 / 64) (65 / 128),
        CLOSE 60000 TAKE_PROFIT (1 / 2) 56] = Some False"
    by simp
  show ?thesis
    unfolding pr pc
    using e0 h0 op c2 mf tk m3 monitorCycle_example rp'
    by simp
qed

section \<open>Properties of the scans\<close>

subsection \<open>Snapshots of the live scan\<close>

lemma evalMarket_fetched:
  "fst (evalMarket s cfg fb m) =
     (if length (m_clobTokenIds m) < 2 then []
      else [m_clobTokenIds m ! 0, m_clobTokenIds m ! 1])"
  by (simp add: evalMarket_def Let_def split: option.splits)

lemma evalMarket_updates:
  "fst (snd (evalMarket s cfg fb m)) =
     (if length (m_clobTokenIds m) < 2 then []
      else (case (observe fb (m_clobTokenIds m ! 0), observe fb (m_clobTokenIds m ! 1)) of
              (Some uA, Some uB) \<Rightarrow> [uA, uB]
            | _ \<Rightarrow> []))"
  by (simp add: evalMarket_def observe_def Let_def split: option.splits)

lemma observe_tokenId: "observe fb t = Some u \<Longrightarrow> su_tokenId u = t"
  by (auto simp: observe_def split: option.splits)

lemma evalMarket_updates_observed:
  assumes "u \<in> set (fst (snd (evalMarket s cfg fb m)))"
  shows "observe fb (su_tokenId u) = Some u"
  using assms
  by (auto simp: evalMarket_updates split: if_splits option.splits) (metis observe_tokenId)+

lemma evalMarket_chosen_observed:
  assumes "snd (snd (evalMarket s cfg fb m)) = Some opp"
  shows "observe fb (ch_tokenId (op_chosen opp)) =
           Some \<lparr>su_tokenId = ch_tokenId (op_chosen opp), su_mid = ch_mid (op_chosen opp),
                 su_bid = ch_bid (op_chosen opp), su_ask = ch_ask (op_chosen opp)\<rparr>"
  using assms
  by (auto simp: evalMarket_def observe_def pickTokenByMove_def Let_def
      split: option.splits if_splits)

lemma evalLoop_fetched:
  "fst (evalLoop s cfg fb ms) = concat (map (\<lambda>m. fst (evalMarket s cfg fb m)) ms)"
  by (induction ms) (auto split: prod.splits)

lemma evalLoop_updates:
  "fst (snd (evalLoop s cfg fb ms)) = concat (map (\<lambda>m. fst (snd (evalMarket s cfg fb m))) ms)"
  by (induction ms) (auto split: prod.splits)

lemma evalLoop_scored:
  "opp \<in> set (snd (snd (evalLoop s cfg fb ms))) \<Longrightarrow>
   \<exists>m\<in>set ms. snd (snd (evalMarket s cfg fb m)) = Some opp"
  by (induction ms) (auto split: prod.splits option.splits)

lemma applyUpdates_observed:
  assumes "\<forall>u\<in>set us. observe fb (su_tokenId u) = Some u"
  shows "applyUpdates now us bt t =
           (if \<exists>u\<in>set us. su_tokenId u = t then map_option (snapshotOf now) (observe fb t)
            else bt t)"
  using assms
proof (induction us arbitrary: bt)
  case Nil
  then show ?case by simp
next
  case (Cons u us)
  then have IH: "applyUpdates now us bt' t =
           (if \<exists>u\<in>set us. su_tokenId u = t then map_option (snapshotOf now) (observe fb t)
            else bt' t)" for bt'
    by simp
  from Cons.prems have u: "observe fb (su_tokenId u) = Some u" by simp
  show ?case
    by (simp add: IH u snapshotOf_def[symmetric])
qed

lemma evalLoop_updates_observed:
  assumes "u \<in> set (fst (snd (evalLoop s cfg fb ms)))"
  shows "observe fb (su_tokenId u) = Some u"
  using assms evalMarket_updates_observed
  by (auto simp: evalLoop_updates)

lemma sort_key_head_in_set:
  "sort_key f xs = x # rest \<Longrightarrow> x \<in> set xs"
  by (metis list.set_intros(1) set_sort)

lemma scanCycle_byToken:
  assumes sc: "scanCycle cfg e s = Inr out"
    and cat: "env_catalog e = Some markets"
    and t: "\<exists>u\<in>set (fst (snd (evalLoop s cfg (env_book e) (liveCandidates cfg markets)))).
              su_tokenId u = t"
  shows "byToken (snapshots (out_state out)) t
           = map_option (snapshotOf (env_now e)) (observe (env_book e) t)"
proof -
  let ?fb = "env_book e"
  let ?now = "env_now e"
  let ?loop = "evalLoop s cfg ?fb (liveCandidates cfg markets)"
  let ?us = "fst (snd ?loop)"
  let ?scored = "snd (snd ?loop)"
  let ?best = "case sort_key (\<lambda>s. - op_score s) ?scored of [] \<Rightarrow> None | top1 # _ \<Rightarrow> Some top1"
  have fo: "findOpportunity s cfg (env_catalog e) ?fb =
          Inr \<lparr>res_best = ?best, res_snapshotUpdates = ?us, res_fetched = fst ?loop\<rparr>"
    by (simp add: findOpportunity_def cat split: prod.splits)
  have obs: "\<forall>u\<in>set ?us. observe ?fb (su_tokenId u) = Some u"
    using evalLoop_updates_observed by blast
  have app: "applyUpdates ?now ?us (byToken (snapshots s)) t
               = map_option (snapshotOf ?now) (observe ?fb t)"
    using applyUpdates_observed[OF obs, of ?now "byToken (snapshots s)" t] t by simp
  show ?thesis
  proof (cases ?best)
    case None
    with sc fo have "byToken (snapshots (out_state out))
                       = applyUpdates ?now ?us (byToken (snapshots s))"
      by (auto simp: scanCycle_def Let_def)
    with app show ?thesis by simp
  next
    case (Some best)
    then have "best \<in> set ?scored"
      by (auto split: list.splits dest: sort_key_head_in_set)
    from evalLoop_scored[OF this] obtain m' where
      "snd (snd (evalMarket s cfg ?fb m')) = Some best" by blast
    from evalMarket_chosen_observed[OF this]
    have ch: "observe ?fb (ch_tokenId (op_chosen best)) =
           Some \<lparr>su_tokenId = ch_tokenId (op_chosen best), su_mid = ch_mid (op_chosen best),
                 su_bid = ch_bid (op_chosen best), su_ask = ch_ask (op_chosen best)\<rparr>" .
    from sc fo Some have bt: "byToken (snapshots (out_state out))
        = (applyUpdates ?now ?us (byToken (snapshots s)))
            (ch_tokenId (op_chosen best) \<mapsto>
               \<lparr>snap_mid = ch_mid (op_chosen best), snap_bid = ch_bid (op_chosen best),
                snap_ask = ch_ask (op_chosen best), snap_t = ?now\<rparr>)"
      by (auto simp: scanCycle_def Let_def markAndSnapshot_def buildPosition_def)
    show ?thesis
    proof (cases "t = ch_tokenId (op_chosen best)")
      case True
      with bt ch show ?thesis by (simp add: snapshotOf_def)
    next
      case False
      with bt app show ?thesis by simp
    qed
  qed
qed

text \<open>
  C7, as the code has it. In a scanning turn of the live loop, for every candidate market
  both of whose first two tokens were observed (both order books fetched, each with a best
  bid and a best ask), the entries of both tokens in the snapshot store on disk after the
  turn hold the new mid, bid and ask and the time of the turn. No hypothesis is made on the
  spread, the move or the depth: the market may be rejected by any of these filters.
\<close>

theorem scan_updates_observed_tokens:
  assumes "cycle cfg e s = Inr out" and "openPosition s = None"
    and "env_catalog e = Some markets"
    and "m \<in> set (liveCandidates cfg markets)"
    and "2 \<le> length (m_clobTokenIds m)"
    and "observe (env_book e) (m_clobTokenIds m ! 0) = Some uA"
    and "observe (env_book e) (m_clobTokenIds m ! 1) = Some uB"
  shows "byToken (snapshots (out_state out)) (m_clobTokenIds m ! 0)
           = Some (snapshotOf (env_now e) uA) \<and>
         byToken (snapshots (out_state out)) (m_clobTokenIds m ! 1)
           = Some (snapshotOf (env_now e) uB)"
proof -
  from assms(1,2) have sc: "scanCycle cfg e s = Inr out" by (simp add: cycle_def)
  have em: "fst (snd (evalMarket s cfg (env_book e) m)) = [uA, uB]"
    using assms(5,6,7) by (simp add: evalMarket_updates)
  have "set (fst (snd (evalMarket s cfg (env_book e) m)))
          \<subseteq> set (fst (snd (evalLoop s cfg (env_book e) (liveCandidates cfg markets))))"
    using assms(4) by (auto simp: evalLoop_updates)
  with em have inA: "uA \<in> set (fst (snd (evalLoop s cfg (env_book e) (liveCandidates cfg markets))))"
    and inB: "uB \<in> set (fst (snd (evalLoop s cfg (env_book e) (liveCandidates cfg markets))))"
    by simp_all
  have tA: "su_tokenId uA = m_clobTokenIds m ! 0" and tB: "su_tokenId uB = m_clobTokenIds m ! 1"
    using assms(6,7) by (simp_all add: observe_tokenId)
  from scanCycle_byToken[OF sc assms(3), of "m_clobTokenIds m ! 0"] inA tA assms(6)
  have a: "byToken (snapshots (out_state out)) (m_clobTokenIds m ! 0)
           = Some (snapshotOf (env_now e) uA)" by auto
  from scanCycle_byToken[OF sc assms(3), of "m_clobTokenIds m ! 1"] inB tB assms(7)
  have b: "byToken (snapshots (out_state out)) (m_clobTokenIds m ! 1)
           = Some (snapshotOf (env_now e) uB)" by auto
  from a b show ?thesis ..
qed

lemma observe_exampleBooks:
  "observe exampleBooks ''tokA''
     = Some \<lparr>su_tokenId = ''tokA'', su_mid = 49 / 128, su_bid = 3 / 8, su_ask = 25 / 64\<rparr> \<and>
   observe exampleBooks ''tokB''
     = Some \<lparr>su_tokenId = ''tokB'', su_mid = 79 / 128, su_bid = 39 / 64, su_ask = 5 / 8\<rparr>"
  by (simp add: observe_def exampleBooks_def lvl_def bestBidAsk_def)

lemma evalMarket_fresh:
  "evalMarket freshState defaultConfig exampleBooks exampleMarket =
     ([''tokA'', ''tokB''],
      [\<lparr>su_tokenId = ''tokA'', su_mid = 49 / 128, su_bid = 3 / 8, su_ask = 25 / 64\<rparr>,
       \<lparr>su_tokenId = ''tokB'', su_mid = 79 / 128, su_bid = 39 / 64, su_ask = 5 / 8\<rparr>],
      None)"
  by (simp add: evalMarket_def exampleMarket_def exampleBooks_def freshState_def emptyState_def
      defaultConfig_def lvl_def bestBidAsk_def pickTokenByMove_def Let_def)

lemma cycle_fresh:
  "\<exists>st. cycle defaultConfig scanEnv freshState =
          Inr \<lparr>out_state = st, out_log = [], out_closed = None,
               out_fetched = [''tokA'', ''tokB'']\<rparr> \<and>
        openPosition st = None"
proof -
  have o: "openPosition freshState = None" by (simp add: freshState_def emptyState_def)
  have f: "findOpportunity freshState defaultConfig (env_catalog scanEnv) (env_book scanEnv) =
     Inr \<lparr>res_best = None,
          res_snapshotUpdates =
            [\<lparr>su_tokenId = ''tokA'', su_mid = 49 / 128, su_bid = 3 / 8, su_ask = 25 / 64\<rparr>,
             \<lparr>su_tokenId = ''tokB'', su_mid = 79 / 128, su_bid = 39 / 64, su_ask = 5 / 8\<rparr>],
          res_fetched = [''tokA'', ''tokB'']\<rparr>"
    by (simp add: scanEnv_def findOpportunity_def liveCandidates_example evalMarket_fresh)
  show ?thesis
    by (simp add: cycle_def o scanCycle_def f Let_def)
qed

theorem scan_updates_observed_tokens_witness:
  "openPosition freshState = None \<and>
   exampleMarket \<in> set (liveCandidates defaultConfig [exampleMarket]) \<and>
   m_clobTokenIds exampleMarket = [''tokA'', ''tokB''] \<and>
   observe exampleBooks ''tokA''
     = Some \<lparr>su_tokenId = ''tokA'', su_mid = 49 / 128, su_bid = 3 / 8, su_ask = 25 / 64\<rparr> \<and>
   observe exampleBooks ''tokB''
     = Some \<lparr>su_tokenId = ''tokB'', su_mid = 79 / 128, su_bid = 39 / 64, su_ask = 5 / 8\<rparr> \<and>
   openPosition (out_state (projr (cycle defaultConfig scanEnv freshState))) = None \<and>
   out_log (projr (cycle defaultConfig scanEnv freshState)) = [] \<and>
   byToken (snapshots (out_state (projr (cycle defaultConfig scanEnv freshState)))) ''tokA''
     = Some \<lparr>snap_mid = 49 / 128, snap_bid = 3 / 8, snap_ask = 25 / 64, snap_t = 0\<rparr> \<and>
   byToken (snapshots (out_state (projr (cycle defaultConfig scanEnv freshState)))) ''tokB''
     = Some \<lparr>snap_mid = 79 / 128, snap_bid = 39 / 64, snap_ask = 5 / 8, snap_t = 0\<rparr>"
proof -
  let ?o = "\<lambda>st. \<lparr>out_state = st, out_log = [], out_closed = None,
               out_fetched = [''tokA'', ''tokB'']\<rparr>"
  obtain st where c: "cycle defaultConfig scanEnv freshState = Inr (?o st)"
    and op: "openPosition st = None"
    using cycle_fresh by blast
  have pc: "projr (cycle defaultConfig scanEnv freshState) = ?o st" by (simp only: c sum.sel)
  have o: "openPosition freshState = None" by (simp add: freshState_def emptyState_def)
  have cat: "env_catalog scanEnv = Some [exampleMarket]" by (simp add: scanEnv_def)
  have mem: "exampleMarket \<in> set (liveCandidates defaultConfig [exampleMarket])"
    by (simp add: liveCandidates_example)
  have toks: "m_clobTokenIds exampleMarket = [''tokA'', ''tokB'']" by (simp add: exampleMarket_def)
  have len: "2 \<le> length (m_clobTokenIds exampleMarket)" by (simp add: toks)
  have oA: "observe (env_book scanEnv) (m_clobTokenIds exampleMarket ! 0)
     = Some \<lparr>su_tokenId = ''tokA'', su_mid = 49 / 128, su_bid = 3 / 8, su_ask = 25 / 64\<rparr>"
    using observe_exampleBooks by (simp add: scanEnv_def toks)
  have oB: "observe (env_book scanEnv) (m_clobTokenIds exampleMarket ! 1)
     = Some \<lparr>su_tokenId = ''tokB'', su_mid = 79 / 128, su_bid = 39 / 64, su_ask = 5 / 8\<rparr>"
    using observe_exampleBooks by (simp add: scanEnv_def toks)
  have n: "env_now scanEnv = 0" by (simp add: scanEnv_def)
  from scan_updates_observed_tokens[OF c o cat mem len oA oB]
  have "byToken (snapshots st) ''tokA''
          = Some \<lparr>snap_mid = 49 / 128, snap_bid = 3 / 8, snap_ask = 25 / 64, snap_t = 0\<rparr> \<and>
        byToken (snapshots st) ''tokB''
          = Some \<lparr>snap_mid = 79 / 128, snap_bid = 39 / 64, snap_ask = 5 / 8, snap_t = 0\<rparr>"
    by (simp add: toks n snapshotOf_def)
  with pc o mem toks observe_exampleBooks op show ?thesis by simp
qed

text \<open>
  The report does otherwise: it writes the snapshot of the chosen token only, and only after
  the market has passed the spread and depth filters.
\<close>

lemma scanCandidates_example: "scanCandidates exampleArgs 0 [endingMarket] = [endingMarket]"
  by (simp add: scanCandidates_def exampleArgs_def endingMarket_def exampleMarket_def
      volumeOf_def liquidityOf_def endsWithin_def)

lemma scanMarket_wide:
  "scanMarket exampleArgs 0 wideBooks Map.empty endingMarket = (None, Map.empty, [''tokA'', ''tokB''])"
  by (simp add: scanMarket_def exampleArgs_def endingMarket_def exampleMarket_def wideBooks_def
      lvl_def bestBidAsk_def Let_def)

theorem report_skips_rejected_market:
  "observe wideBooks ''tokA''
     = Some \<lparr>su_tokenId = ''tokA'', su_mid = 13 / 32, su_bid = 5 / 16, su_ask = 1 / 2\<rparr> \<and>
   rep_fetched (projr (main exampleArgs 0 (Some [endingMarket]) wideBooks emptyDoc))
     = [''tokA'', ''tokB''] \<and>
   doc_byToken (rep_snapshots (projr (main exampleArgs 0 (Some [endingMarket]) wideBooks emptyDoc)))
     ''tokA'' = None"
  by (simp add: main_def scanCandidates_example scanMarket_wide emptyDoc_def observe_def
       wideBooks_def lvl_def bestBidAsk_def)

lemma evalMarket_oneSided:
  "evalMarket freshState defaultConfig (env_book oneSidedEnv) exampleMarket =
     ([''tokA'', ''tokB''], [], None)"
  by (simp add: evalMarket_def exampleMarket_def oneSidedEnv_def exampleBooks_def Let_def)

lemma cycle_oneSided:
  "byToken (snapshots (out_state (projr (cycle defaultConfig oneSidedEnv freshState)))) ''tokA'' = None \<and>
   out_fetched (projr (cycle defaultConfig oneSidedEnv freshState)) = [''tokA'', ''tokB'']"
proof -
  have o: "openPosition freshState = None" by (simp add: freshState_def emptyState_def)
  have cat: "env_catalog oneSidedEnv = Some [exampleMarket]" by (simp add: oneSidedEnv_def)
  have f: "findOpportunity freshState defaultConfig (env_catalog oneSidedEnv) (env_book oneSidedEnv) =
     Inr \<lparr>res_best = None, res_snapshotUpdates = [], res_fetched = [''tokA'', ''tokB'']\<rparr>"
    by (simp add: cat findOpportunity_def liveCandidates_example evalMarket_oneSided)
  have b: "byToken (snapshots freshState) ''tokA'' = None" by (simp add: freshState_def)
  show ?thesis
    by (simp add: cycle_def o scanCycle_def f Let_def b)
qed

text \<open>
  Two observed tokens without a snapshot. In the report, token A of a market rejected for
  its spread: its book was fetched and has a best bid and a best ask, and the snapshot
  document written has no entry for it. In the live scan, token A of a market whose other
  book could not be fetched: no update is pushed for either token.
\<close>

theorem observed_token_without_snapshot:
  "observe wideBooks ''tokA''
     = Some \<lparr>su_tokenId = ''tokA'', su_mid = 13 / 32, su_bid = 5 / 16, su_ask = 1 / 2\<rparr> \<and>
   rep_fetched (projr (main exampleArgs 0 (Some [endingMarket]) wideBooks emptyDoc))
     = [''tokA'', ''tokB''] \<and>
   doc_byToken (rep_snapshots (projr (main exampleArgs 0 (Some [endingMarket]) wideBooks emptyDoc)))
     ''tokA'' = None \<and>
   observe (env_book oneSidedEnv) ''tokA''
     = Some \<lparr>su_tokenId = ''tokA'', su_mid = 49 / 128, su_bid = 3 / 8, su_ask = 25 / 64\<rparr> \<and>
   out_fetched (projr (cycle defaultConfig oneSidedEnv freshState)) = [''tokA'', ''tokB''] \<and>
   byToken (snapshots (out_state (projr (cycle defaultConfig oneSidedEnv freshState)))) ''tokA'' = None"
proof -
  have "observe (env_book oneSidedEnv) ''tokA'' = observe exampleBooks ''tokA''"
    by (simp add: observe_def oneSidedEnv_def)
  with observe_exampleBooks report_skips_rejected_market cycle_oneSided show ?thesis by simp
qed

subsection \<open>Eligibility before order-book requests\<close>

lemma tokenLoop_fetched: "set (snd (tokenLoop fb xs)) \<subseteq> (\<lambda>x. fst (snd x)) ` set xs"
proof (induction xs)
  case Nil
  then show ?case by simp
next
  case (Cons x xs)
  obtain idx tok rp where x: "x = (idx, tok, rp)" by (cases x) auto
  show ?case using Cons.IH unfolding x
    by (auto split: number.splits prod.splits option.splits if_splits)
qed

lemma scanMarket_fetched:
  assumes "t \<in> set (snd (snd (scanMarket a now fb bt m)))"
  shows "t \<in> set (m_clobTokenIds m) \<and> 2 \<le> length (m_outcomes m) \<and>
         2 \<le> length (m_outcomePrices m) \<and> 2 \<le> length (m_clobTokenIds m)"
proof -
  let ?xs = "zip [0 ..< min (length (m_clobTokenIds m)) (length (m_outcomePrices m))]
               (zip (m_clobTokenIds m) (m_outcomePrices m))"
  from assms have len: "\<not> (length (m_outcomes m) < 2 \<or> length (m_outcomePrices m) < 2 \<or>
                          length (m_clobTokenIds m) < 2)"
    by (auto simp: scanMarket_def Let_def split: if_splits)
  with assms have "t \<in> set (snd (tokenLoop fb ?xs))"
    by (auto simp: scanMarket_def Let_def split: if_splits prod.splits list.splits)
  with tokenLoop_fetched have "t \<in> (\<lambda>x. fst (snd x)) ` set ?xs" by blast
  then obtain i p where "(i, t, p) \<in> set ?xs" by force
  then have "(t, p) \<in> set (zip (m_clobTokenIds m) (m_outcomePrices m))"
    by (rule set_zip_rightD)
  then have "t \<in> set (m_clobTokenIds m)" by (rule set_zip_leftD)
  with len show ?thesis by simp
qed

lemma scanLoop_fetched:
  "t \<in> set (snd (snd (scanLoop a now fb ms bt))) \<Longrightarrow>
   \<exists>m\<in>set ms. \<exists>bt'. t \<in> set (snd (snd (scanMarket a now fb bt' m)))"
proof (induction ms arbitrary: bt)
  case Nil
  then show ?case by simp
next
  case (Cons m ms)
  obtain r bt1 f1 where sm: "scanMarket a now fb bt m = (r, bt1, f1)"
    by (cases "scanMarket a now fb bt m") auto
  obtain rows bt2 f2 where sl: "scanLoop a now fb ms bt1 = (rows, bt2, f2)"
    by (cases "scanLoop a now fb ms bt1") auto
  from Cons.prems sm sl have "t \<in> set f1 \<or> t \<in> set f2" by auto
  then show ?case
  proof
    assume "t \<in> set f1"
    with sm have "t \<in> set (snd (snd (scanMarket a now fb bt m)))" by simp
    then show ?thesis by auto
  next
    assume "t \<in> set f2"
    with sl have "t \<in> set (snd (snd (scanLoop a now fb ms bt1)))" by simp
    from Cons.IH[OF this] show ?thesis by auto
  qed
qed

lemma scanCandidates_eligible:
  assumes "m \<in> set (scanCandidates a now markets)"
  shows "m \<in> set markets \<and> \<not> m_closed m \<and> m_enableOrderBook m \<and>
         volumeOf m \<ge> arg_minVolume24h a \<and> liquidityOf m \<ge> arg_minLiquidity a \<and>
         endsWithin now (now + arg_maxEndHours a * 3600000) m"
proof -
  from assms have "m \<in> set (filter (endsWithin now (now + arg_maxEndHours a * 3600000))
             (filter (\<lambda>m. liquidityOf m \<ge> arg_minLiquidity a)
               (filter (\<lambda>m. volumeOf m \<ge> arg_minVolume24h a)
                 (filter m_enableOrderBook
                   (filter (\<lambda>m. \<not> m_closed m) markets)))))"
    unfolding scanCandidates_def Let_def by (rule in_set_takeD)
  then show ?thesis by simp
qed

lemma liveCandidates_eligible:
  assumes "m \<in> set (liveCandidates cfg markets)"
  shows "m \<in> set markets \<and> \<not> m_closed m \<and> m_enableOrderBook m \<and>
         m_acceptingOrders m \<noteq> Some False \<and>
         volumeOf m \<ge> cfg_minVolume24h cfg \<and> liquidityOf m \<ge> cfg_minLiquidity cfg \<and>
         length (m_outcomes m) = 2"
proof -
  from assms have "m \<in> set (filter (\<lambda>m. length (m_outcomes m) = 2)
         (filter (\<lambda>m. liquidityOf m \<ge> cfg_minLiquidity cfg)
           (filter (\<lambda>m. volumeOf m \<ge> cfg_minVolume24h cfg)
             (filter (\<lambda>m. m_acceptingOrders m \<noteq> Some False)
               (filter m_enableOrderBook
                 (filter (\<lambda>m. \<not> m_closed m) markets))))))"
    unfolding liveCandidates_def by (rule in_set_takeD)
  then show ?thesis by simp
qed

text \<open>
  C8, as the code has it. In the report, every token whose order book is requested belongs
  to a market of the catalog that is not closed, has its order book enabled, meets the
  volume and liquidity floors, ends after now and before the lookahead cutoff, and has at
  least two outcomes, two prices and two tokens. In the engine, every such token belongs to
  a market that is not closed, has its order book enabled, does not refuse orders, meets
  the floors and has exactly two outcomes and at least two tokens: the engine has no
  predicate on the end time.
\<close>

theorem fetch_only_eligible_markets:
  "(main a now (Some markets) fb prev = Inr rep \<longrightarrow>
      (\<forall>t\<in>set (rep_fetched rep).
         \<exists>m\<in>set markets. t \<in> set (m_clobTokenIds m) \<and> eligibleScan a now m)) \<and>
   (findOpportunity s cfg (Some markets') fb' = Inr res \<longrightarrow>
      (\<forall>t\<in>set (res_fetched res).
         \<exists>m\<in>set markets'. t \<in> set (m_clobTokenIds m) \<and> eligibleLive cfg m))"
proof (intro conjI impI ballI)
  fix t
  assume mn: "main a now (Some markets) fb prev = Inr rep" and t: "t \<in> set (rep_fetched rep)"
  from mn have "rep_fetched rep
      = snd (snd (scanLoop a now fb (scanCandidates a now markets) (doc_byToken prev)))"
    by (auto simp: main_def split: prod.splits)
  with t scanLoop_fetched obtain m bt' where
    m: "m \<in> set (scanCandidates a now markets)"
    and f: "t \<in> set (snd (snd (scanMarket a now fb bt' m)))"
    by metis
  from scanCandidates_eligible[OF m] scanMarket_fetched[OF f]
  show "\<exists>m\<in>set markets. t \<in> set (m_clobTokenIds m) \<and> eligibleScan a now m"
    by (auto simp: eligibleScan_def)
next
  fix t
  assume fo: "findOpportunity s cfg (Some markets') fb' = Inr res" and t: "t \<in> set (res_fetched res)"
  from fo have "res_fetched res = fst (evalLoop s cfg fb' (liveCandidates cfg markets'))"
    by (auto simp: findOpportunity_def split: prod.splits)
  with t obtain m where m: "m \<in> set (liveCandidates cfg markets')"
    and f: "t \<in> set (fst (evalMarket s cfg fb' m))"
    by (auto simp: evalLoop_fetched)
  from f have len: "2 \<le> length (m_clobTokenIds m)"
    by (auto simp: evalMarket_fetched split: if_splits)
  with f have "t = m_clobTokenIds m ! 0 \<or> t = m_clobTokenIds m ! 1"
    by (auto simp: evalMarket_fetched split: if_splits)
  with len have "t \<in> set (m_clobTokenIds m)" by (auto intro: nth_mem)
  with len liveCandidates_eligible[OF m]
  show "\<exists>m\<in>set markets'. t \<in> set (m_clobTokenIds m) \<and> eligibleLive cfg m"
    by (auto simp: eligibleLive_def)
qed

text \<open>
  The engine requests both order books of a market whose end date does not parse, which
  lies in no lookahead window.
\<close>

theorem live_fetches_without_end_date:
  "m_endDate exampleMarket = None \<and>
   \<not> endsWithin 0 (24 * 365 * 2 * 3600000) exampleMarket \<and>
   res_fetched (projr (findOpportunity emptyState defaultConfig (Some [exampleMarket]) exampleBooks))
     = [''tokA'', ''tokB'']"
proof -
  have "res_fetched (projr (findOpportunity emptyState defaultConfig (Some [exampleMarket])
          exampleBooks)) = [''tokA'', ''tokB'']"
    by (simp add: findOpportunity_example)
  moreover have "m_endDate exampleMarket = None" by (simp add: exampleMarket_def)
  ultimately show ?thesis by (simp add: endsWithin_def)
qed

theorem fetch_only_eligible_markets_witness:
  "main exampleArgs 0 (Some [endingMarket]) wideBooks emptyDoc
     = Inr (projr (main exampleArgs 0 (Some [endingMarket]) wideBooks emptyDoc)) \<and>
   ''tokA'' \<in> set (rep_fetched (projr (main exampleArgs 0 (Some [endingMarket]) wideBooks emptyDoc))) \<and>
   eligibleScan exampleArgs 0 endingMarket \<and>
   ''tokA'' \<in> set (res_fetched (projr (findOpportunity emptyState defaultConfig
                                         (Some [exampleMarket]) exampleBooks))) \<and>
   eligibleLive defaultConfig exampleMarket"
proof -
  let ?mn = "main exampleArgs 0 (Some [endingMarket]) wideBooks emptyDoc"
  let ?fo = "findOpportunity emptyState defaultConfig (Some [exampleMarket]) exampleBooks"
  have m1: "?mn = Inr (projr ?mn)"
    by (simp add: main_def split: prod.splits)
  have f1: "?fo = Inr (projr ?fo)"
    by (simp add: findOpportunity_example)
  have a: "''tokA'' \<in> set (rep_fetched (projr ?mn))"
    using report_skips_rejected_market by simp
  have b: "''tokA'' \<in> set (res_fetched (projr ?fo))"
    by (simp add: findOpportunity_example)
  from fetch_only_eligible_markets[of exampleArgs 0 "[endingMarket]" wideBooks emptyDoc
         "projr ?mn" emptyState defaultConfig "[exampleMarket]" exampleBooks "projr ?fo"]
       m1 f1 a b
  show ?thesis by auto
qed

end
